theory Spec2Isabelle
  imports Main "HOL-Library.Sublist"
begin

section \<open>Python string operations used by translator.py\<close>

text \<open>
  Python strings are modelled as \<open>string\<close>; a \<open>char\<close> stands for a code point below 256.
  \<open>str.isspace\<close> and the line boundaries of \<open>str.splitlines\<close> are the ones Python
  defines in that range (code points above 255, such as U+2028, are outside the type).
\<close>

definition isspace :: "char \<Rightarrow> bool" where
  "isspace c = ((of_char c :: nat) \<in> {9, 10, 11, 12, 13, 28, 29, 30, 31, 32, 133, 160})"

definition strip :: "string \<Rightarrow> string" where
  "strip s = rev (dropWhile isspace (rev (dropWhile isspace s)))"

definition is_linebreak :: "char \<Rightarrow> bool" where
  "is_linebreak c = ((of_char c :: nat) \<in> {10, 11, 12, 13, 28, 29, 30, 133})"

text \<open>
  \<open>str.splitlines()\<close>: the text is cut at every line boundary, a carriage return followed
  by a line feed counts as one boundary, and no empty last line is produced.
\<close>

fun splitlines_from :: "string \<Rightarrow> string \<Rightarrow> string list" where
  "splitlines_from cur [] = (if cur = [] then [] else [cur])"
| "splitlines_from cur (c # cs) =
     (if c = CHR 0x0D then
        (case cs of
           [] \<Rightarrow> [cur]
         | d # ds \<Rightarrow> if d = CHR 0x0A then cur # splitlines_from [] ds
                     else cur # splitlines_from [] (d # ds))
      else if is_linebreak c then cur # splitlines_from [] cs
      else splitlines_from (cur @ [c]) cs)"

definition splitlines :: "string \<Rightarrow> string list" where
  "splitlines s = splitlines_from [] s"

definition startswith :: "string \<Rightarrow> string \<Rightarrow> bool" where
  "startswith s p = (take (length p) s = p)"

text \<open>\<open>s.split(sep, 1)\<close> for a one-character separator: one or two pieces.\<close>

definition split_once :: "char \<Rightarrow> string \<Rightarrow> string list" where
  "split_once sep s =
     (case dropWhile (\<lambda>c. c \<noteq> sep) s of
        [] \<Rightarrow> [s]
      | _ # after \<Rightarrow> [takeWhile (\<lambda>c. c \<noteq> sep) s, after])"


section \<open>ModelDialog.save_settings: parsing the custom parameters\<close>

text \<open>
  \<open>json.loads\<close> belongs to the Python library, not to the program: it is a parameter
  \<open>json_loads\<close> of the parser, returning \<open>None\<close> where the library raises.
  The exceptions of the \<open>try\<close> body are the two below; the \<open>except Exception\<close>
  clause turns both into \<open>continue\<close>.
\<close>

datatype py_exception = ValueError | JSONDecodeError

text \<open>The body of the \<open>try\<close>, for a stripped line that starts with a dash.\<close>

definition parse_entry :: "(string \<Rightarrow> 'v option) \<Rightarrow> string \<Rightarrow> py_exception + (string \<times> 'v)" where
  "parse_entry json_loads line =
     (case split_once (CHR '':'') (drop 1 line) of
        [key, val] \<Rightarrow>
          (case json_loads (strip val) of
             None \<Rightarrow> Inl JSONDecodeError
           | Some v \<Rightarrow> Inr (strip key, v))
      | _ \<Rightarrow> Inl ValueError)"

text \<open>One line of the text: the entry it contributes to the dictionary, if any.\<close>

definition parse_line :: "(string \<Rightarrow> 'v option) \<Rightarrow> string \<Rightarrow> (string \<times> 'v) option" where
  "parse_line json_loads line0 =
     (let line = strip line0 in
      if startswith line ''-'' then
        (case parse_entry json_loads line of
           Inr kv \<Rightarrow> Some kv
         | Inl _ \<Rightarrow> None)
      else None)"

text \<open>The \<open>for\<close> loop over the lines, threading the dictionary \<open>custom_params\<close>.\<close>

fun parse_lines :: "(string \<Rightarrow> 'v option) \<Rightarrow> (string \<rightharpoonup> 'v) \<Rightarrow> string list \<Rightarrow> (string \<rightharpoonup> 'v)" where
  "parse_lines json_loads custom_params [] = custom_params"
| "parse_lines json_loads custom_params (line # rest) =
     parse_lines json_loads
       (case parse_line json_loads line of
          None \<Rightarrow> custom_params
        | Some (key, v) \<Rightarrow> custom_params(key \<mapsto> v))
       rest"

definition parse_custom_params :: "(string \<Rightarrow> 'v option) \<Rightarrow> string \<Rightarrow> (string \<rightharpoonup> 'v)" where
  "parse_custom_params json_loads custom_params_text =
     parse_lines json_loads Map.empty (splitlines custom_params_text)"

text \<open>
  An instance of the parameter for concrete inputs: \<open>json.loads\<close> on unsigned decimal
  integer literals (no leading zero); every other text is rejected by this instance.
\<close>

definition isdigit :: "char \<Rightarrow> bool" where
  "isdigit c = (48 \<le> (of_char c :: nat) \<and> (of_char c :: nat) \<le> 57)"

definition json_loads_nat :: "string \<Rightarrow> nat option" where
  "json_loads_nat s =
     (case s of
        [] \<Rightarrow> None
      | c # cs \<Rightarrow>
          if list_all isdigit s \<and> (if c = CHR ''0'' then cs = [] else True)
          then Some (foldl (\<lambda>n d. 10 * n + (of_char d - 48)) 0 s)
          else None)"


section \<open>Messages, the backend and the signals of OpenAIWorker\<close>

text \<open>
  A message is the dictionary \<open>{"role": ..., "content": ...}\<close>. The list
  \<open>self.messages\<close> is a mutable Python object that the window and its worker share by
  reference, so lists of messages live in a store and are named by their address.
\<close>

type_synonym addr = nat

record message =
  role :: string
  content :: string

text \<open>
  What the backend gives back. An item of the response stream is a chunk, carried as the
  \<open>delta.content\<close> of each of its \<open>choices\<close> (\<open>None\<close> where the content is
  \<open>None\<close>), or an exception raised while the stream is read, with its text \<open>str(e)\<close>.
  Creating the client or the request may raise as well: a response is the exception's
  text or the stream.
\<close>

datatype stream_item = Chunk "string option list" | Raise string

type_synonym response = "string + stream_item list"

record ('g, 'c) request =
  base_url :: string
  req_api_key :: string
  model :: string
  req_messages :: "message list"
  req_generation_params :: 'g
  extra_body :: 'c

datatype signal = token_received string | finished string | error string

text \<open>
  The thread of a worker: started and not yet past the request (\<open>Pending\<close>), inside the
  \<open>for\<close> loop with the local variables \<open>all_messages\<close>, the rest of
  \<open>response_stream\<close> and \<open>accumulated_response\<close> (\<open>Streaming\<close>), returned from
  \<open>run\<close> (\<open>Returned\<close>), or stopped by \<open>terminate()\<close> (\<open>Killed\<close>).
\<close>

datatype phase =
    Pending
  | Streaming "message list" "stream_item list" string
  | Returned
  | Killed

record ('g, 'c) worker =
  w_endpoint :: string
  w_api_key :: string
  w_system_prompt :: string
  w_messages :: addr
  w_model_name :: string
  w_generation_params :: 'g
  w_custom_params :: 'c
  phase :: phase

definition all_messages :: "(addr \<Rightarrow> message list) \<Rightarrow> ('g, 'c) worker \<Rightarrow> message list" where
  "all_messages h w = \<lparr>role = ''system'', content = w_system_prompt w\<rparr> # h (w_messages w)"

definition request_of :: "(addr \<Rightarrow> message list) \<Rightarrow> ('g, 'c) worker \<Rightarrow> ('g, 'c) request" where
  "request_of h w =
     \<lparr>base_url = w_endpoint w, req_api_key = w_api_key w, model = w_model_name w,
      req_messages = all_messages h w,
      req_generation_params = w_generation_params w, extra_body = w_custom_params w\<rparr>"

text \<open>
  The \<open>for\<close> loop of \<open>run\<close> with its \<open>except\<close> clause: reading \<open>choices[0]\<close> of a
  chunk without choices raises IndexError, whose text is the one below.
\<close>

fun stream_loop :: "stream_item list \<Rightarrow> string \<Rightarrow> signal list" where
  "stream_loop [] accumulated_response = [finished accumulated_response]"
| "stream_loop (Raise e # rest) accumulated_response = [error e]"
| "stream_loop (Chunk [] # rest) accumulated_response = [error ''list index out of range'']"
| "stream_loop (Chunk (None # others) # rest) accumulated_response =
     stream_loop rest accumulated_response"
| "stream_loop (Chunk (Some c # others) # rest) accumulated_response =
     token_received c # stream_loop rest (accumulated_response @ c)"

text \<open>\<open>OpenAIWorker.run\<close> as a whole: the signals it emits, in order.\<close>

definition run :: "(('g, 'c) request \<Rightarrow> response) \<Rightarrow> (addr \<Rightarrow> message list) \<Rightarrow> ('g, 'c) worker \<Rightarrow> signal list" where
  "run backend h w =
     (case backend (request_of h w) of
        Inl e \<Rightarrow> [error e]
      | Inr response_stream \<Rightarrow> stream_loop response_stream [])"

text \<open>
  The same code one step at a time, for the runs in which the window acts while the
  thread is under way: the first step builds the request from the store as it is then and
  opens the stream, each later step is one iteration of the loop. A thread that has
  returned or has been killed does nothing.
\<close>

definition worker_step ::
  "(('g, 'c) request \<Rightarrow> response) \<Rightarrow> (addr \<Rightarrow> message list) \<Rightarrow> ('g, 'c) worker \<Rightarrow> ('g, 'c) worker \<times> signal list" where
  "worker_step backend h w =
     (case phase w of
        Pending \<Rightarrow>
          (case backend (request_of h w) of
             Inl e \<Rightarrow> (w\<lparr>phase := Returned\<rparr>, [error e])
           | Inr response_stream \<Rightarrow>
               (w\<lparr>phase := Streaming (all_messages h w) response_stream []\<rparr>, []))
      | Streaming sent response_stream accumulated_response \<Rightarrow>
          (case response_stream of
             [] \<Rightarrow> (w\<lparr>phase := Returned\<rparr>, [finished accumulated_response])
           | Raise e # rest \<Rightarrow> (w\<lparr>phase := Returned\<rparr>, [error e])
           | Chunk [] # rest \<Rightarrow> (w\<lparr>phase := Returned\<rparr>, [error ''list index out of range''])
           | Chunk (None # others) # rest \<Rightarrow>
               (w\<lparr>phase := Streaming sent rest accumulated_response\<rparr>, [])
           | Chunk (Some c # others) # rest \<Rightarrow>
               (w\<lparr>phase := Streaming sent rest (accumulated_response @ c)\<rparr>, [token_received c]))
      | Returned \<Rightarrow> (w, [])
      | Killed \<Rightarrow> (w, []))"

fun worker_steps ::
  "nat \<Rightarrow> (('g, 'c) request \<Rightarrow> response) \<Rightarrow> (addr \<Rightarrow> message list) \<Rightarrow> ('g, 'c) worker \<Rightarrow> ('g, 'c) worker \<times> signal list" where
  "worker_steps 0 backend h w = (w, [])"
| "worker_steps (Suc n) backend h w =
     (case worker_step backend h w of
        (w1, emitted) \<Rightarrow>
          (case worker_steps n backend h w1 of (w2, later) \<Rightarrow> (w2, emitted @ later)))"

text \<open>\<open>QThread.isRunning()\<close>, and \<open>terminate()\<close> followed by \<open>wait()\<close>.\<close>

definition isRunning :: "('g, 'c) worker \<Rightarrow> bool" where
  "isRunning w = (case phase w of Returned \<Rightarrow> False | Killed \<Rightarrow> False | _ \<Rightarrow> True)"

definition terminate :: "('g, 'c) worker \<Rightarrow> ('g, 'c) worker" where
  "terminate w = w\<lparr>phase := Killed\<rparr>"


section \<open>TransparentAIAssistant: the window that coordinates the turns\<close>

record ('g, 'c) app =
  endpoint :: string
  api_key :: string
  system_prompt :: string
  model_name :: string
  generation_params :: 'g
  custom_params :: 'c
  messages :: addr
  heap :: "addr \<Rightarrow> message list"
  next_addr :: addr
  response_area :: string
  current_worker :: "('g, 'c) worker option"
  previous_clipboard :: string
  event_queue :: "signal list"
  old_workers :: "('g, 'c) worker list"

text \<open>
  Beside the fields of the class, a state holds what Qt keeps for the window. The signals
  of a worker are connected from its thread to the window, so an emission only posts the
  signal: \<open>event_queue\<close> holds the signals posted and not yet handled, in order, and the
  slot runs when the window handles the signal. \<open>old_workers\<close> are the workers that
  \<open>current_worker\<close> no longer names; letting go of a worker changes neither its thread nor
  its connections.
\<close>

text \<open>The list \<open>self.messages\<close> names, and the assignment \<open>self.messages = []\<close>.\<close>

definition history :: "('g, 'c) app \<Rightarrow> message list" where
  "history st = heap st (messages st)"

definition new_messages :: "('g, 'c) app \<Rightarrow> ('g, 'c) app" where
  "new_messages st =
     st\<lparr>messages := next_addr st,
        heap := (heap st)(next_addr st := []),
        next_addr := Suc (next_addr st)\<rparr>"

definition messages_append :: "message \<Rightarrow> ('g, 'c) app \<Rightarrow> ('g, 'c) app" where
  "messages_append m st = st\<lparr>heap := (heap st)(messages st := heap st (messages st) @ [m])\<rparr>"

text \<open>\<open>pyperclip.paste()\<close> inside its \<open>try\<close>: a failed read is \<open>None\<close> and gives the empty text.\<close>

definition paste :: "string option \<Rightarrow> string" where
  "paste rd = (case rd of None \<Rightarrow> [] | Some s \<Rightarrow> s)"

text \<open>The slots connected to the worker's signals.\<close>

definition append_token :: "string \<Rightarrow> ('g, 'c) app \<Rightarrow> ('g, 'c) app" where
  "append_token token st = st\<lparr>response_area := response_area st @ token\<rparr>"

definition finish_response :: "string \<Rightarrow> ('g, 'c) app \<Rightarrow> ('g, 'c) app" where
  "finish_response full_response st =
     messages_append \<lparr>role = ''assistant'', content = full_response\<rparr> st"

definition display_error :: "string \<Rightarrow> ('g, 'c) app \<Rightarrow> ('g, 'c) app" where
  "display_error error_message st = st\<lparr>response_area := ''Error: '' @ error_message\<rparr>"

definition deliver :: "signal \<Rightarrow> ('g, 'c) app \<Rightarrow> ('g, 'c) app" where
  "deliver sig st =
     (case sig of
        token_received token \<Rightarrow> append_token token st
      | finished full_response \<Rightarrow> finish_response full_response st
      | error error_message \<Rightarrow> display_error error_message st)"

text \<open>
  \<open>handle_new_message\<close>, statement by statement: lines 548 to 551, lines 556 to 559,
  lines 562 to 574. The new worker receives \<open>self.messages\<close> itself, that is its address.
\<close>

definition append_user_message :: "string \<Rightarrow> ('g, 'c) app \<Rightarrow> ('g, 'c) app" where
  "append_user_message message st =
     messages_append \<lparr>role = ''user'', content = message\<rparr>
       (if history st = [] then new_messages st else st)"

definition terminate_running :: "('g, 'c) app \<Rightarrow> ('g, 'c) app" where
  "terminate_running st =
     (case current_worker st of
        None \<Rightarrow> st
      | Some w \<Rightarrow> if isRunning w then st\<lparr>current_worker := Some (terminate w)\<rparr> else st)"

definition start_worker :: "('g, 'c) app \<Rightarrow> ('g, 'c) app" where
  "start_worker st =
     st\<lparr>current_worker := Some
        \<lparr>w_endpoint = endpoint st, w_api_key = api_key st,
         w_system_prompt = system_prompt st, w_messages = messages st,
         w_model_name = model_name st, w_generation_params = generation_params st,
         w_custom_params = custom_params st, phase = Pending\<rparr>,
        old_workers := (case current_worker st of
                          None \<Rightarrow> old_workers st
                        | Some w \<Rightarrow> w # old_workers st)\<rparr>"

definition handle_new_message :: "string \<Rightarrow> ('g, 'c) app \<Rightarrow> ('g, 'c) app" where
  "handle_new_message message st =
     (if strip message = [] then st
      else start_worker (terminate_running
             ((append_user_message message st)\<lparr>response_area := []\<rparr>)))"

definition check_clipboard :: "string option \<Rightarrow> ('g, 'c) app \<Rightarrow> ('g, 'c) app" where
  "check_clipboard rd st =
     (let current_clipboard = paste rd in
      if current_clipboard \<noteq> previous_clipboard st
      then handle_new_message current_clipboard (st\<lparr>previous_clipboard := current_clipboard\<rparr>)
      else st)"

definition clear_history :: "string option \<Rightarrow> ('g, 'c) app \<Rightarrow> ('g, 'c) app" where
  "clear_history rd st =
     (let st1 = (case current_worker st of
                   None \<Rightarrow> st
                 | Some w \<Rightarrow>
                     if isRunning w
                     then st\<lparr>current_worker := None, old_workers := terminate w # old_workers st\<rparr>
                     else st)
      in (new_messages st1)\<lparr>response_area := [], previous_clipboard := paste rd\<rparr>)"

text \<open>
  What happens between two calls of the window's own methods: a step of the current
  worker's thread or of the thread of a worker let go of, whose signals are posted to the
  queue, and the window handling the signal at the head of the queue.
\<close>

definition emit_step :: "(('g, 'c) request \<Rightarrow> response) \<Rightarrow> ('g, 'c) app \<Rightarrow> ('g, 'c) app" where
  "emit_step backend st =
     (case current_worker st of
        None \<Rightarrow> st
      | Some w \<Rightarrow>
          (case worker_step backend (heap st) w of
             (w1, emitted) \<Rightarrow>
               st\<lparr>current_worker := Some w1, event_queue := event_queue st @ emitted\<rparr>))"

definition old_emit_step :: "nat \<Rightarrow> (('g, 'c) request \<Rightarrow> response) \<Rightarrow> ('g, 'c) app \<Rightarrow> ('g, 'c) app" where
  "old_emit_step i backend st =
     (if i < length (old_workers st)
      then (case worker_step backend (heap st) (old_workers st ! i) of
              (w1, emitted) \<Rightarrow>
                st\<lparr>old_workers := (old_workers st)[i := w1],
                   event_queue := event_queue st @ emitted\<rparr>)
      else st)"

definition deliver_next :: "('g, 'c) app \<Rightarrow> ('g, 'c) app" where
  "deliver_next st =
     (case event_queue st of
        [] \<Rightarrow> st
      | sig # rest \<Rightarrow> deliver sig (st\<lparr>event_queue := rest\<rparr>))"

datatype action = Emit | Emit_old nat | Deliver

fun play :: "action list \<Rightarrow> (('g, 'c) request \<Rightarrow> response) \<Rightarrow> ('g, 'c) app \<Rightarrow> ('g, 'c) app" where
  "play [] backend st = st"
| "play (Emit # rest) backend st = play rest backend (emit_step backend st)"
| "play (Emit_old i # rest) backend st = play rest backend (old_emit_step i backend st)"
| "play (Deliver # rest) backend st = play rest backend (deliver_next st)"

text \<open>
  The schedule in which the window handles every signal of the current worker as soon as
  it is emitted, before anything else happens: one step of the thread with its signals
  handed to the slots at once.
\<close>

definition thread_step :: "(('g, 'c) request \<Rightarrow> response) \<Rightarrow> ('g, 'c) app \<Rightarrow> ('g, 'c) app" where
  "thread_step backend st =
     (case current_worker st of
        None \<Rightarrow> st
      | Some w \<Rightarrow>
          (case worker_step backend (heap st) w of
             (w1, emitted) \<Rightarrow>
               foldl (\<lambda>s sig. deliver sig s) (st\<lparr>current_worker := Some w1\<rparr>) emitted))"

fun thread_steps :: "nat \<Rightarrow> (('g, 'c) request \<Rightarrow> response) \<Rightarrow> ('g, 'c) app \<Rightarrow> ('g, 'c) app" where
  "thread_steps 0 backend st = st"
| "thread_steps (Suc n) backend st = thread_steps n backend (thread_step backend st)"

text \<open>
  The window after \<open>__init__\<close>: the settings as loaded, no message, no worker, the
  greeting in the response area, and the clipboard read once.
\<close>

definition init_app :: "string \<Rightarrow> string \<Rightarrow> string \<Rightarrow> string \<Rightarrow> 'g \<Rightarrow> 'c \<Rightarrow> string option \<Rightarrow> ('g, 'c) app" where
  "init_app ep key prompt name gen cust rd =
     \<lparr>endpoint = ep, api_key = key, system_prompt = prompt, model_name = name,
      generation_params = gen, custom_params = cust,
      messages = 0, heap = (\<lambda>a. []), next_addr = 1,
      response_area = ''The text from the clipboard will be translated here. If you are just starting out - please setup model api in the menu.'',
      current_worker = None, previous_clipboard = paste rd,
      event_queue = [], old_workers = []\<rparr>"


section \<open>Notions the statements use\<close>

definition user_message :: "string \<Rightarrow> message" where
  "user_message c = \<lparr>role = ''user'', content = c\<rparr>"

definition assistant_message :: "string \<Rightarrow> message" where
  "assistant_message c = \<lparr>role = ''assistant'', content = c\<rparr>"

text \<open>The worker the guard \<open>self.current_worker and self.current_worker.isRunning()\<close> sees.\<close>

definition active_worker :: "('g, 'c) app \<Rightarrow> ('g, 'c) worker option" where
  "active_worker st =
     (case current_worker st of
        None \<Rightarrow> None
      | Some w \<Rightarrow> if isRunning w then Some w else None)"

fun is_terminal :: "signal \<Rightarrow> bool" where
  "is_terminal (token_received t) = False"
| "is_terminal (finished f) = True"
| "is_terminal (error e) = True"

fun tokens :: "signal list \<Rightarrow> string list" where
  "tokens [] = []"
| "tokens (token_received t # rest) = t # tokens rest"
| "tokens (s # rest) = tokens rest"

text \<open>The first exception a response runs into, if any, and the text of its fragments.\<close>

fun stream_failure :: "stream_item list \<Rightarrow> string option" where
  "stream_failure [] = None"
| "stream_failure (Raise e # rest) = Some e"
| "stream_failure (Chunk [] # rest) = Some ''list index out of range''"
| "stream_failure (Chunk (c # others) # rest) = stream_failure rest"

definition failure :: "response \<Rightarrow> string option" where
  "failure resp = (case resp of Inl e \<Rightarrow> Some e | Inr s \<Rightarrow> stream_failure s)"

fun stream_text :: "stream_item list \<Rightarrow> string" where
  "stream_text [] = []"
| "stream_text (Chunk (Some c # others) # rest) = c @ stream_text rest"
| "stream_text (x # rest) = stream_text rest"

text \<open>A run of poll ticks, one read per tick.\<close>

fun ticks :: "string option list \<Rightarrow> ('g, 'c) app \<Rightarrow> ('g, 'c) app" where
  "ticks [] st = st"
| "ticks (rd # rds) st = ticks rds (check_clipboard rd st)"

text \<open>
  A turn is a text, the response stream of the backend and a schedule: the tick that reads
  the text, then the steps of the threads and the handling of queued signals in the order
  of the schedule. A list of turns, one after the other.
\<close>

definition turn :: "string \<times> stream_item list \<times> action list \<Rightarrow> ('g, 'c) app \<Rightarrow> ('g, 'c) app" where
  "turn t st =
     play (snd (snd t)) (\<lambda>req. Inr (fst (snd t))) (check_clipboard (Some (fst t)) st)"

fun turns :: "(string \<times> stream_item list \<times> action list) list \<Rightarrow> ('g, 'c) app \<Rightarrow> ('g, 'c) app" where
  "turns [] st = st"
| "turns (t # ts) st = turns ts (turn t st)"

text \<open>
  A state is settled when no worker is running and no signal waits in the queue: whatever
  the session emitted has been handled. A list of turns is settled when every turn ends in
  a settled state, that is before the tick of the next turn.
\<close>

definition settled :: "('g, 'c) app \<Rightarrow> bool" where
  "settled st =
     (event_queue st = [] \<and>
      (case current_worker st of None \<Rightarrow> True | Some w \<Rightarrow> \<not> isRunning w))"

fun all_settled :: "(string \<times> stream_item list \<times> action list) list \<Rightarrow> ('g, 'c) app \<Rightarrow> bool" where
  "all_settled [] st = True"
| "all_settled (t # ts) st = (settled (turn t st) \<and> all_settled ts (turn t st))"

text \<open>The workers let go of are stopped: none of their threads is running.\<close>

definition stopped :: "('g, 'c) worker list \<Rightarrow> bool" where
  "stopped ws = list_all (\<lambda>w. \<not> isRunning w) ws"

text \<open>
  The signals a worker's thread still has to emit when the backend answers with
  \<open>resp\<close>, and the texts of the \<open>finished\<close> signals of a list.
\<close>

definition remaining :: "response \<Rightarrow> ('g, 'c) worker \<Rightarrow> signal list" where
  "remaining resp w =
     (case phase w of
        Pending \<Rightarrow> (case resp of Inl e \<Rightarrow> [error e] | Inr s \<Rightarrow> stream_loop s [])
      | Streaming sent s acc \<Rightarrow> stream_loop s acc
      | Returned \<Rightarrow> []
      | Killed \<Rightarrow> [])"

fun completions :: "signal list \<Rightarrow> string list" where
  "completions [] = []"
| "completions (finished f # rest) = f # completions rest"
| "completions (s # rest) = completions rest"

text \<open>
  The history a state is bound for: its history, then one assistant message for every
  \<open>finished\<close> in the queue and among the signals the current thread has yet to emit.
\<close>

definition owed :: "response \<Rightarrow> ('g, 'c) app \<Rightarrow> message list" where
  "owed resp st =
     history st @ map assistant_message (completions (event_queue st @
       (case current_worker st of None \<Rightarrow> [] | Some w \<Rightarrow> remaining resp w)))"

text \<open>
  The texts of a list of turns are changes: each differs from the snapshot left by the one
  before and is not blank, so that each tick starts a turn.
\<close>

fun changes :: "string \<Rightarrow> string list \<Rightarrow> bool" where
  "changes prev [] = True"
| "changes prev (c # cs) = (c \<noteq> prev \<and> strip c \<noteq> [] \<and> changes c cs)"

text \<open>
  The texts that a run of ticks hands to \<open>handle_new_message\<close> past its guard, from the
  snapshot \<open>prev\<close>: the two conditions are the ones of lines 540 and 545.
\<close>

fun fired :: "string \<Rightarrow> string option list \<Rightarrow> string list" where
  "fired prev [] = []"
| "fired prev (rd # rds) =
     (if paste rd \<noteq> prev \<and> strip (paste rd) \<noteq> []
      then paste rd # fired (paste rd) rds
      else fired (paste rd) rds)"

text \<open>The messages a worker has sent to the backend, once its request is built.\<close>

definition sent_messages :: "('g, 'c) worker \<Rightarrow> message list option" where
  "sent_messages w = (case phase w of Streaming sent rest acc \<Rightarrow> Some sent | _ \<Rightarrow> None)"

text \<open>
  The signals of a session whose thread is killed after \<open>k\<close> steps and watched for
  \<open>n\<close> steps more.
\<close>

definition cancelled_session ::
  "nat \<Rightarrow> nat \<Rightarrow> (('g, 'c) request \<Rightarrow> response) \<Rightarrow> (addr \<Rightarrow> message list) \<Rightarrow> ('g, 'c) worker \<Rightarrow> signal list" where
  "cancelled_session k n backend h w =
     (case worker_steps k backend h w of
        (w1, before) \<Rightarrow> before @ snd (worker_steps n backend h (terminate w1)))"


text \<open>The backend that answers every request with the same response.\<close>

definition reply :: "response \<Rightarrow> ('g, 'c) request \<Rightarrow> response" where
  "reply resp req = resp"

text \<open>A window and a worker for the concrete instances.\<close>

definition app0 :: "(unit, unit) app" where
  "app0 = init_app ''http://127.0.0.1/v1'' ''-'' ''Translate.'' ''default'' () () (Some [])"

definition worker0 :: "(unit, unit) worker" where
  "worker0 =
     \<lparr>w_endpoint = ''http://127.0.0.1/v1'', w_api_key = ''-'',
      w_system_prompt = ''Translate.'', w_messages = 0, w_model_name = ''default'',
      w_generation_params = (), w_custom_params = (), phase = Pending\<rparr>"


section \<open>The custom-parameter parser\<close>

lemmas string_ops = strip_def isspace_def startswith_def split_once_def
  splitlines_def is_linebreak_def

lemma parse_lines_append:
  "parse_lines jl m (xs @ ys) = parse_lines jl (parse_lines jl m xs) ys"
  by (induction xs arbitrary: m) simp_all

lemma parse_lines_other_keys:
  "(\<And>l y. l \<in> set ls \<Longrightarrow> parse_line jl l \<noteq> Some (k, y)) \<Longrightarrow> parse_lines jl m ls k = m k"
proof (induction ls arbitrary: m)
  case Nil
  show ?case by simp
next
  case (Cons l ls)
  have rest: "parse_lines jl m' ls k = m' k" for m'
    using Cons.IH Cons.prems by simp
  show ?case
  proof (cases "parse_line jl l")
    case None
    then show ?thesis by (simp add: rest)
  next
    case (Some kv)
    obtain k' y where kv: "kv = (k', y)" by (cases kv)
    have "k' \<noteq> k" using Cons.prems [of l y] Some kv by auto
    then show ?thesis using Some kv by (simp add: rest)
  qed
qed

lemma parse_lines_skip:
  "parse_line jl l = None \<Longrightarrow> parse_lines jl m (pre @ l # post) = parse_lines jl m (pre @ post)"
  by (simp add: parse_lines_append)

lemma example_no_dash:
  "parse_custom_params jl (''not-a-valid-line'' @ [CHR 0x0A] @ ''top_k: 20'') = Map.empty"
  by (simp add: parse_custom_params_def parse_line_def string_ops)

lemma example_dash:
  "jl ''20'' = Some v \<Longrightarrow>
   parse_custom_params jl (''- not-a-valid-line'' @ [CHR 0x0A] @ ''- top_k: 20'') = [''top_k'' \<mapsto> v]"
  by (simp add: parse_custom_params_def parse_line_def parse_entry_def string_ops)

text \<open>
  The example as the specification writes it, with no dash in front of either entry:
  neither line is considered, and the resulting dictionary is empty.
\<close>

theorem custom_params_example_counterexample:
  "parse_custom_params json_loads_nat (''not-a-valid-line'' @ [CHR 0x0A] @ ''top_k: 20'')
     \<noteq> [''top_k'' \<mapsto> 20]"
proof
  assume a: "parse_custom_params json_loads_nat (''not-a-valid-line'' @ [CHR 0x0A] @ ''top_k: 20'')
     = [''top_k'' \<mapsto> 20]"
  have e: "parse_custom_params json_loads_nat (''not-a-valid-line'' @ [CHR 0x0A] @ ''top_k: 20'')
     = Map.empty"
    by (rule example_no_dash)
  have "(Map.empty :: string \<rightharpoonup> nat) = [''top_k'' \<mapsto> 20]"
    using e [symmetric] a by (rule trans)
  then have "(Map.empty :: string \<rightharpoonup> nat) ''top_k'' = [''top_k'' \<mapsto> 20] ''top_k''"
    by (rule fun_cong)
  then show False by simp
qed

text \<open>
  Claim C7, amended. A line that contributes no entry (no leading dash, no colon, or a
  value that \<open>json.loads\<close> rejects) is skipped on its own: the lines before and after
  it are parsed as if it were absent. With the entries written with their dash,
  \<open>- not-a-valid-line\<close> beside \<open>- top_k: 20\<close> gives exactly \<open>{top_k: 20}\<close>; written
  without the dash, as in the specification's example, both lines are ignored and the
  dictionary is empty.
\<close>

theorem malformed_lines_skipped:
  "(parse_line jl l = None \<longrightarrow>
      parse_lines jl m (pre @ l # post) = parse_lines jl m (pre @ post)) \<and>
   (jl ''20'' = Some v \<longrightarrow>
      parse_custom_params jl (''- not-a-valid-line'' @ [CHR 0x0A] @ ''- top_k: 20'')
        = [''top_k'' \<mapsto> v]) \<and>
   parse_custom_params jl (''not-a-valid-line'' @ [CHR 0x0A] @ ''top_k: 20'') = Map.empty"
  using parse_lines_skip [of jl l m pre post] example_dash [of jl v] example_no_dash [of jl]
  by blast

lemma jl20: "json_loads_nat ''20'' = Some 20"
  by (simp add: json_loads_nat_def isdigit_def)

lemma pl_bad: "parse_line json_loads_nat ''- not-a-valid-line'' = None"
  by (simp add: parse_line_def parse_entry_def string_ops)

theorem malformed_lines_skipped_witness:
  "parse_line json_loads_nat ''- not-a-valid-line'' = None \<and>
   parse_lines json_loads_nat Map.empty ([''- min_p: 1''] @ ''- not-a-valid-line'' # [''- top_k: 20''])
     = parse_lines json_loads_nat Map.empty ([''- min_p: 1''] @ [''- top_k: 20'']) \<and>
   parse_lines json_loads_nat Map.empty ([''- min_p: 1''] @ [''- top_k: 20''])
     = [''min_p'' \<mapsto> 1, ''top_k'' \<mapsto> 20] \<and>
   json_loads_nat ''20'' = Some 20 \<and>
   parse_custom_params json_loads_nat (''- not-a-valid-line'' @ [CHR 0x0A] @ ''- top_k: 20'')
     = [''top_k'' \<mapsto> 20]"
proof -
  have a: "parse_lines json_loads_nat Map.empty ([''- min_p: 1''] @ [''- top_k: 20''])
     = [''min_p'' \<mapsto> 1, ''top_k'' \<mapsto> 20]"
    by (simp add: parse_line_def parse_entry_def string_ops json_loads_nat_def isdigit_def)
  show ?thesis
    using malformed_lines_skipped [of json_loads_nat "''- not-a-valid-line''" Map.empty
        "[''- min_p: 1'']" "[''- top_k: 20'']" 20] pl_bad jl20 a
    by blast
qed

text \<open>
  Claim C10. A line is considered only if, stripped, it starts with a dash: a line
  \<open>key: value\<close> without the dash contributes nothing, and neither does a dash line whose
  value part \<open>json.loads\<close> rejects; such a line leaves the dictionary as it was. Of the
  accepted lines with one key, the last decides the value: an accepted line for a key
  that no later accepted line has gives that key its value in the result.
\<close>

theorem dash_required_last_wins:
  "(\<not> startswith (strip l) ''-'' \<longrightarrow> parse_line jl l = None) \<and>
   parse_line jl ''top_k: 20'' = None \<and>
   (startswith (strip l) ''-'' \<and> split_once (CHR '':'') (drop 1 (strip l)) = [k, t] \<and>
      jl (strip t) = None \<longrightarrow> parse_line jl l = None) \<and>
   (parse_line jl l = None \<longrightarrow> parse_lines jl m (l # post) = parse_lines jl m post) \<and>
   (parse_line jl l = Some (key, v) \<and> (\<forall>l' \<in> set post. \<forall>y. parse_line jl l' \<noteq> Some (key, y)) \<longrightarrow>
      parse_lines jl m (pre @ l # post) key = Some v)"
proof (intro conjI impI)
  show "parse_line jl l = None" if "\<not> startswith (strip l) ''-''"
    using that by (simp add: parse_line_def)
  show "parse_line jl ''top_k: 20'' = None"
    by (simp add: parse_line_def string_ops)
  show "parse_line jl l = None"
    if "startswith (strip l) ''-'' \<and> split_once (CHR '':'') (drop 1 (strip l)) = [k, t] \<and> jl (strip t) = None"
    using that by (simp add: parse_line_def parse_entry_def)
  show "parse_lines jl m (l # post) = parse_lines jl m post" if "parse_line jl l = None"
    using that by simp
  show "parse_lines jl m (pre @ l # post) key = Some v"
    if h: "parse_line jl l = Some (key, v) \<and> (\<forall>l' \<in> set post. \<forall>y. parse_line jl l' \<noteq> Some (key, y))"
  proof -
    have "parse_lines jl m (pre @ l # post) key = ((parse_lines jl m pre)(key \<mapsto> v)) key"
      using h by (simp add: parse_lines_append parse_lines_other_keys)
    then show ?thesis by simp
  qed
qed

theorem dash_required_last_wins_witness:
  "\<not> startswith (strip ''top_k: 20'') ''-'' \<and> parse_line json_loads_nat ''top_k: 20'' = None \<and>
   startswith (strip ''- top_k: twenty'') ''-'' \<and>
   split_once (CHR '':'') (drop 1 (strip ''- top_k: twenty'')) = ['' top_k'', '' twenty''] \<and>
   json_loads_nat (strip '' twenty'') = None \<and>
   parse_line json_loads_nat ''- top_k: twenty'' = None \<and>
   parse_lines json_loads_nat Map.empty [''- top_k: twenty'', ''- top_k: 20''] =
     parse_lines json_loads_nat Map.empty [''- top_k: 20''] \<and>
   parse_line json_loads_nat ''- top_k: 40'' = Some (''top_k'', 40) \<and>
   parse_lines json_loads_nat Map.empty ([''- top_k: 20''] @ ''- top_k: 40'' # [''- min_p: 1'', ''top_k: 7''])
     ''top_k'' = Some 40"
proof -
  have a: "\<not> startswith (strip ''top_k: 20'') ''-''" by (simp add: string_ops)
  have b: "startswith (strip ''- top_k: twenty'') ''-'' \<and>
      split_once (CHR '':'') (drop 1 (strip ''- top_k: twenty'')) = ['' top_k'', '' twenty''] \<and>
      json_loads_nat (strip '' twenty'') = None"
    by (simp add: string_ops json_loads_nat_def isdigit_def)
  have c: "parse_line json_loads_nat ''- top_k: 40'' = Some (''top_k'', 40)"
    by (simp add: parse_line_def parse_entry_def string_ops json_loads_nat_def isdigit_def)
  have d: "\<forall>l' \<in> set [''- min_p: 1'', ''top_k: 7'']. \<forall>y. parse_line json_loads_nat l' \<noteq> Some (''top_k'', y)"
    by (simp add: parse_line_def parse_entry_def string_ops json_loads_nat_def isdigit_def)
  have t1: "parse_line json_loads_nat ''top_k: 20'' = None"
    using dash_required_last_wins [where l = "''top_k: 20''" and jl = json_loads_nat] a by blast
  have t2: "parse_line json_loads_nat ''- top_k: twenty'' = None"
    using dash_required_last_wins [where l = "''- top_k: twenty''" and jl = json_loads_nat
        and k = "'' top_k''" and t = "'' twenty''"] b
    by blast
  have t3: "parse_lines json_loads_nat Map.empty [''- top_k: twenty'', ''- top_k: 20''] =
     parse_lines json_loads_nat Map.empty [''- top_k: 20'']"
    using dash_required_last_wins [where l = "''- top_k: twenty''" and jl = json_loads_nat
        and m = Map.empty and post = "[''- top_k: 20'']"] t2
    by blast
  have t4: "parse_lines json_loads_nat Map.empty ([''- top_k: 20''] @ ''- top_k: 40'' # [''- min_p: 1'', ''top_k: 7''])
     ''top_k'' = Some 40"
    using dash_required_last_wins [where l = "''- top_k: 40''" and jl = json_loads_nat
        and m = Map.empty and key = "''top_k''" and v = 40
        and post = "[''- min_p: 1'', ''top_k: 7'']" and pre = "[''- top_k: 20'']"] c d
    by blast
  show ?thesis using a b c t1 t2 t3 t4 by blast
qed


section \<open>The signals of a run\<close>


lemma stream_loop_finished_ok:
  "finished f \<in> set (stream_loop s acc) \<Longrightarrow> stream_failure s = None"
  by (induction s acc rule: stream_loop.induct) auto

lemma tokens_map_token [simp]: "tokens (map token_received ts) = ts"
  by (induction ts) simp_all

lemma tokens_append [simp]: "tokens (xs @ ys) = tokens xs @ tokens ys"
  by (induction xs rule: tokens.induct) simp_all

lemma stream_loop_shape:
  "\<exists>t. is_terminal t \<and>
       stream_loop s acc = map token_received (tokens (stream_loop s acc)) @ [t] \<and>
       (\<forall>full. t = finished full \<longrightarrow> full = acc @ concat (tokens (stream_loop s acc)))"
proof (induction s acc rule: stream_loop.induct)
  case (5 c others rest acc)
  then obtain t where t: "is_terminal t"
    "stream_loop rest (acc @ c) = map token_received (tokens (stream_loop rest (acc @ c))) @ [t]"
    "\<forall>full. t = finished full \<longrightarrow> full = (acc @ c) @ concat (tokens (stream_loop rest (acc @ c)))"
    by blast
  show ?case
    apply (rule exI [of _ t])
    using t by simp
qed simp_all

lemma filter_terminal_tokens [simp]: "filter is_terminal (map token_received ts) = []"
  by (induction ts) simp_all

lemma finished_not_token [simp]: "finished full \<notin> set (map token_received ts)"
  by (induction ts) simp_all

lemma stream_loop_completed:
  assumes "finished full \<in> set (stream_loop s acc)"
  shows "full = acc @ concat (tokens (stream_loop s acc)) \<and>
         stream_loop s acc = map token_received (tokens (stream_loop s acc)) @ [finished full] \<and>
         length (filter is_terminal (stream_loop s acc)) = 1"
proof -
  obtain t where t: "is_terminal t"
    "stream_loop s acc = map token_received (tokens (stream_loop s acc)) @ [t]"
    "\<forall>full. t = finished full \<longrightarrow> full = acc @ concat (tokens (stream_loop s acc))"
    using stream_loop_shape by blast
  have "finished full \<in> set (map token_received (tokens (stream_loop s acc)) @ [t])"
    using assms t(2) by simp
  then have eq: "t = finished full" by auto
  have "length (filter is_terminal (map token_received (tokens (stream_loop s acc)) @ [t])) = 1"
    using t(1) by simp
  then have "length (filter is_terminal (stream_loop s acc)) = 1"
    using t(2) by simp
  then show ?thesis using t eq by simp
qed

text \<open>
  Claim C4. When a run of the worker emits \<open>finished full\<close>, the text \<open>full\<close> is the
  concatenation, in order, of the fragments emitted as \<open>token_received\<close> before it; the
  signals of the run are exactly those fragments followed by the one \<open>finished\<close>, so the
  terminal signal is emitted once and last.
\<close>

theorem completed_is_concatenation:
  "finished full \<in> set (run backend h w) \<longrightarrow>
     full = concat (tokens (run backend h w)) \<and>
     run backend h w = map token_received (tokens (run backend h w)) @ [finished full] \<and>
     length (filter is_terminal (run backend h w)) = 1"
proof (cases "backend (request_of h w)")
  case (Inl e)
  then show ?thesis by (simp add: run_def)
next
  case (Inr s)
  then show ?thesis using stream_loop_completed [of full s "[]"] by (simp add: run_def)
qed

theorem completed_is_concatenation_witness:
  "finished ''Hello'' \<in> set (run (\<lambda>req. Inr [Chunk [Some ''Hel''], Chunk [None], Chunk [Some ''lo'']])
      (\<lambda>a. []) worker0) \<and>
   ''Hello'' = concat [''Hel'', ''lo''] \<and>
   run (\<lambda>req. Inr [Chunk [Some ''Hel''], Chunk [None], Chunk [Some ''lo'']]) (\<lambda>a. []) worker0
     = [token_received ''Hel'', token_received ''lo'', finished ''Hello'']"
proof -
  have r: "run (\<lambda>req. Inr [Chunk [Some ''Hel''], Chunk [None], Chunk [Some ''lo'']]) (\<lambda>a. []) worker0
     = [token_received ''Hel'', token_received ''lo'', finished ''Hello'']"
    by (simp add: run_def)
  have m: "finished ''Hello'' \<in> set (run (\<lambda>req. Inr [Chunk [Some ''Hel''], Chunk [None], Chunk [Some ''lo'']])
      (\<lambda>a. []) worker0)"
    by (simp add: r)
  show ?thesis
    using completed_is_concatenation [where full = "''Hello''"
        and backend = "\<lambda>req. Inr [Chunk [Some ''Hel''], Chunk [None], Chunk [Some ''lo'']]"
        and h = "\<lambda>a. []" and w = worker0] m r
    by simp
qed

lemma worker_phase_update [simp]: "phase w = p \<Longrightarrow> w\<lparr>phase := p\<rparr> = w"
  by simp

lemma worker_steps_done:
  "phase w = Returned \<or> phase w = Killed \<Longrightarrow> worker_steps n backend h w = (w, [])"
  by (induction n) (auto simp: worker_step_def)

lemma worker_steps_killed:
  "worker_steps n backend h (terminate w) = (terminate w, [])"
  by (rule worker_steps_done) (simp add: terminate_def)

lemma worker_steps_streaming:
  "phase w = Streaming sent s acc \<Longrightarrow> length s < n \<Longrightarrow>
   worker_steps n backend h w = (w\<lparr>phase := Returned\<rparr>, stream_loop s acc)"
proof (induction s acc arbitrary: n w rule: stream_loop.induct)
  case (1 acc)
  then obtain m where n: "n = Suc m" by (cases n) auto
  show ?case using 1 by (simp add: n worker_step_def worker_steps_done)
next
  case (2 e rest acc)
  then obtain m where n: "n = Suc m" by (cases n) auto
  show ?case using 2 by (simp add: n worker_step_def worker_steps_done)
next
  case (3 rest acc)
  then obtain m where n: "n = Suc m" by (cases n) auto
  show ?case using 3 by (simp add: n worker_step_def worker_steps_done)
next
  case (4 others rest acc)
  then obtain m where n: "n = Suc m" by (cases n) auto
  have "worker_steps m backend h (w\<lparr>phase := Streaming sent rest acc\<rparr>)
      = (w\<lparr>phase := Streaming sent rest acc\<rparr>\<lparr>phase := Returned\<rparr>, stream_loop rest acc)"
    using 4 n by (intro 4) auto
  then show ?case using 4 by (simp add: n worker_step_def)
next
  case (5 c others rest acc)
  then obtain m where n: "n = Suc m" by (cases n) auto
  have "worker_steps m backend h (w\<lparr>phase := Streaming sent rest (acc @ c)\<rparr>)
      = (w\<lparr>phase := Streaming sent rest (acc @ c)\<rparr>\<lparr>phase := Returned\<rparr>, stream_loop rest (acc @ c))"
    using 5 n by (intro 5) auto
  then show ?case using 5 by (simp add: n worker_step_def)
qed

lemma worker_steps_run:
  assumes "phase w = Pending"
    and "case backend (request_of h w) of Inl e \<Rightarrow> 0 < n | Inr s \<Rightarrow> length s + 1 < n"
  shows "worker_steps n backend h w = (w\<lparr>phase := Returned\<rparr>, run backend h w)"
proof (cases "backend (request_of h w)")
  case (Inl e)
  then obtain m where n: "n = Suc m" using assms by (cases n) auto
  show ?thesis using assms Inl by (simp add: n worker_step_def run_def worker_steps_done)
next
  case (Inr s)
  then obtain m where n: "n = Suc m" using assms by (cases n) auto
  have "worker_steps m backend h (w\<lparr>phase := Streaming (all_messages h w) s []\<rparr>)
     = (w\<lparr>phase := Streaming (all_messages h w) s []\<rparr>\<lparr>phase := Returned\<rparr>, stream_loop s [])"
    using assms Inr n by (intro worker_steps_streaming) auto
  then show ?thesis using assms Inr by (simp add: n worker_step_def run_def)
qed


section \<open>Signals handed to the window\<close>

lemmas slot_defs = deliver_def append_token_def finish_response_def display_error_def
  messages_append_def






lemma history_append_user:
  "history (append_user_message m st) = history st @ [user_message m]"
  by (simp add: append_user_message_def messages_append_def new_messages_def history_def
      user_message_def)

lemma history_finish_response:
  "history (finish_response f st) = history st @ [assistant_message f]"
  by (simp add: finish_response_def messages_append_def history_def assistant_message_def)

lemma history_terminate_running [simp]: "history (terminate_running st) = history st"
  by (simp add: terminate_running_def history_def split: option.splits)

lemma history_start_worker [simp]: "history (start_worker st) = history st"
  by (simp add: start_worker_def history_def)

lemma history_updates [simp]:
  "history (st\<lparr>response_area := r\<rparr>) = history st"
  "history (st\<lparr>previous_clipboard := p\<rparr>) = history st"
  "history (st\<lparr>current_worker := cw\<rparr>) = history st"
  by (simp_all add: history_def)

lemma history_slots [simp]:
  "history (append_token t st) = history st"
  "history (display_error e st) = history st"
  by (simp_all add: append_token_def display_error_def)

lemma handle_new_message_fields:
  assumes "strip m \<noteq> []"
  shows "history (handle_new_message m st) = history st @ [user_message m]"
    and "response_area (handle_new_message m st) = []"
    and "previous_clipboard (handle_new_message m st) = previous_clipboard st"
    and "\<exists>w. current_worker (handle_new_message m st) = Some w \<and> phase w = Pending \<and>
           w_messages w = messages (handle_new_message m st) \<and>
           w_system_prompt w = system_prompt st"
proof -
  show "history (handle_new_message m st) = history st @ [user_message m]"
    using assms by (simp add: handle_new_message_def history_append_user)
  show "response_area (handle_new_message m st) = []"
    using assms
    by (simp add: handle_new_message_def start_worker_def terminate_running_def
        split: option.splits)
  show "previous_clipboard (handle_new_message m st) = previous_clipboard st"
    using assms
    by (simp add: handle_new_message_def start_worker_def terminate_running_def
        append_user_message_def messages_append_def new_messages_def split: option.splits)
  show "\<exists>w. current_worker (handle_new_message m st) = Some w \<and> phase w = Pending \<and>
           w_messages w = messages (handle_new_message m st) \<and>
           w_system_prompt w = system_prompt st"
    using assms
    by (simp add: handle_new_message_def start_worker_def terminate_running_def
        append_user_message_def messages_append_def new_messages_def split: option.splits)
qed



lemma thread_step_history:
  "history (thread_step backend st) =
     (case current_worker st of
        None \<Rightarrow> history st
      | Some w \<Rightarrow>
          (case phase w of
             Streaming sent [] acc \<Rightarrow> history st @ [assistant_message acc]
           | _ \<Rightarrow> history st))"
  by (simp add: thread_step_def worker_step_def deliver_def history_finish_response
      split: option.splits phase.splits list.splits stream_item.splits sum.splits)


section \<open>Turns that fail\<close>




section \<open>Poll ticks\<close>

lemma previous_after_tick: "previous_clipboard (check_clipboard rd st) = paste rd"
proof (cases "paste rd = previous_clipboard st")
  case True
  then show ?thesis by (simp add: check_clipboard_def Let_def)
next
  case False
  show ?thesis
  proof (cases "strip (paste rd) = []")
    case True
    then show ?thesis using False by (simp add: check_clipboard_def Let_def handle_new_message_def)
  next
    case nb: False
    show ?thesis using False
      by (simp add: check_clipboard_def Let_def handle_new_message_fields(3) [OF nb])
  qed
qed

lemma history_after_tick:
  "history (check_clipboard rd st) =
     (if paste rd \<noteq> previous_clipboard st \<and> strip (paste rd) \<noteq> []
      then history st @ [user_message (paste rd)] else history st)"
proof (cases "strip (paste rd) = []")
  case True
  then show ?thesis by (simp add: check_clipboard_def Let_def handle_new_message_def)
next
  case False
  show ?thesis using False
    by (simp add: check_clipboard_def Let_def handle_new_message_fields(1) [OF False])
qed

text \<open>
  A read that differs from the snapshot and is blank: no turn starts, yet the snapshot
  is replaced by the blank text.
\<close>

theorem blank_read_updates_snapshot_counterexample:
  "previous_clipboard (check_clipboard (Some '' '') (init_app ''e'' ''k'' ''p'' ''m'' () () (Some ''a'')))
     \<noteq> previous_clipboard (init_app ''e'' ''k'' ''p'' ''m'' () () (Some ''a'')) \<and>
   history (check_clipboard (Some '' '') (init_app ''e'' ''k'' ''p'' ''m'' () () (Some ''a'')))
     = history (init_app ''e'' ''k'' ''p'' ''m'' () () (Some ''a''))"
  by (simp add: check_clipboard_def Let_def handle_new_message_def init_app_def paste_def strip_def
      isspace_def history_def)

text \<open>
  Claim C2, amended. On a poll tick a turn starts (the user message is appended and a
  new worker is started) if and only if the value read differs from the snapshot and is
  not empty after trimming. The snapshot is replaced by the value read whenever the two
  differ, also when the value is empty after trimming and no turn starts; after every tick
  the snapshot is the value read. When the value read equals the snapshot nothing
  changes at all.
\<close>

theorem check_clipboard_tick:
  "history (check_clipboard rd st) =
     (if paste rd \<noteq> previous_clipboard st \<and> strip (paste rd) \<noteq> []
      then history st @ [user_message (paste rd)] else history st) \<and>
   previous_clipboard (check_clipboard rd st) = paste rd \<and>
   (paste rd = previous_clipboard st \<longrightarrow> check_clipboard rd st = st) \<and>
   (paste rd \<noteq> previous_clipboard st \<and> strip (paste rd) = [] \<longrightarrow>
      check_clipboard rd st = st\<lparr>previous_clipboard := paste rd\<rparr>) \<and>
   (paste rd \<noteq> previous_clipboard st \<and> strip (paste rd) \<noteq> [] \<longrightarrow>
      check_clipboard rd st =
        start_worker (terminate_running
          ((append_user_message (paste rd) (st\<lparr>previous_clipboard := paste rd\<rparr>))
             \<lparr>response_area := []\<rparr>)))"
  by (simp add: history_after_tick previous_after_tick)
    (simp add: check_clipboard_def Let_def handle_new_message_def)

theorem check_clipboard_tick_witness:
  "check_clipboard (Some ''a'') (init_app ''e'' ''k'' ''p'' ''m'' () () (Some ''a''))
     = init_app ''e'' ''k'' ''p'' ''m'' () () (Some ''a'') \<and>
   check_clipboard None (init_app ''e'' ''k'' ''p'' ''m'' () () (Some ''a''))
     = (init_app ''e'' ''k'' ''p'' ''m'' () () (Some ''a''))\<lparr>previous_clipboard := []\<rparr> \<and>
   history (check_clipboard (Some ''b'') (init_app ''e'' ''k'' ''p'' ''m'' () () (Some ''a'')))
     = [user_message ''b''] \<and>
   previous_clipboard (check_clipboard (Some ''b'') (init_app ''e'' ''k'' ''p'' ''m'' () () (Some ''a'')))
     = ''b''"
proof -
  let ?st = "init_app ''e'' ''k'' ''p'' ''m'' () () (Some ''a'') :: (unit, unit) app"
  have p: "previous_clipboard ?st = ''a''" "history ?st = []"
    by (simp_all add: init_app_def paste_def history_def)
  have s: "strip ''b'' \<noteq> []" "strip [] = []" by (simp_all add: strip_def isspace_def)
  have 1: "check_clipboard (Some ''a'') ?st = ?st"
    using check_clipboard_tick [where rd = "Some ''a''" and st = ?st] p by (simp add: paste_def)
  have 2: "check_clipboard None ?st = ?st\<lparr>previous_clipboard := []\<rparr>"
    using check_clipboard_tick [where rd = None and st = ?st] p s by (simp add: paste_def)
  have "history (check_clipboard (Some ''b'') ?st) =
     (if paste (Some ''b'') \<noteq> previous_clipboard ?st \<and> strip (paste (Some ''b'')) \<noteq> []
      then history ?st @ [user_message (paste (Some ''b''))] else history ?st) \<and>
     previous_clipboard (check_clipboard (Some ''b'') ?st) = paste (Some ''b'')"
    using check_clipboard_tick [where rd = "Some ''b''" and st = ?st] by blast
  then have 3: "history (check_clipboard (Some ''b'') ?st) = [user_message ''b''] \<and>
     previous_clipboard (check_clipboard (Some ''b'') ?st) = ''b''"
    using p s by (simp add: paste_def)
  show ?thesis using 1 2 3 by blast
qed

lemma ticks_history:
  "history (ticks rds st) = history st @ map user_message (fired (previous_clipboard st) rds)"
  by (induction rds arbitrary: st) (simp_all add: history_after_tick previous_after_tick)

lemma fired_distinct:
  "list_all (\<lambda>rd. strip (paste rd) \<noteq> []) rds \<Longrightarrow> distinct_adj (prev # fired prev rds)"
proof (induction rds arbitrary: prev)
  case Nil
  show ?case by simp
next
  case (Cons rd rds)
  then have ih: "distinct_adj (paste rd # fired (paste rd) rds)" by simp
  show ?case
  proof (cases "paste rd = prev")
    case True
    then show ?thesis using ih by simp
  next
    case False
    then show ?thesis using ih Cons.prems by simp
  qed
qed

lemma ticks_previous:
  "rds \<noteq> [] \<Longrightarrow> previous_clipboard (ticks rds st) = paste (last rds)"
  by (induction rds arbitrary: st) (auto simp: previous_after_tick)

text \<open>
  The reads \<open>A\<close>, a failed read, \<open>A\<close>: the failed read replaces the snapshot by the
  empty text, and the same text starts two turns in a row.
\<close>

theorem repeated_text_counterexample:
  "map content (history (ticks [Some ''A'', None, Some ''A''] app0)) = [''A'', ''A'']"
proof -
  have f: "fired (previous_clipboard app0) [Some ''A'', None, Some ''A''] = [''A'', ''A'']"
    by (simp add: app0_def init_app_def paste_def strip_def isspace_def)
  have h: "history app0 = []" by (simp add: app0_def init_app_def history_def)
  show ?thesis unfolding ticks_history f h by (simp add: user_message_def)
qed

text \<open>
  Claim C3, amended. The user messages appended by a run of ticks are the texts
  \<open>fired\<close> computes from the snapshot and the reads. When no read of the run is empty
  after trimming (a failed read counts as empty), no two consecutive texts are equal.
  A blank or failed read replaces the snapshot like any other (after a run of ticks the
  snapshot is the last value read), which is how the same text can start a turn again.
\<close>

theorem no_repeat_without_blank_read:
  "history (ticks rds st) = history st @ map user_message (fired (previous_clipboard st) rds) \<and>
   (list_all (\<lambda>rd. strip (paste rd) \<noteq> []) rds \<longrightarrow>
      distinct_adj (fired (previous_clipboard st) rds)) \<and>
   (rds \<noteq> [] \<longrightarrow> previous_clipboard (ticks rds st) = paste (last rds))"
proof (intro conjI impI)
  show "history (ticks rds st) = history st @ map user_message (fired (previous_clipboard st) rds)"
    by (rule ticks_history)
  show "distinct_adj (fired (previous_clipboard st) rds)"
    if "list_all (\<lambda>rd. strip (paste rd) \<noteq> []) rds"
    using fired_distinct [OF that, of "previous_clipboard st"] by (rule distinct_adj_ConsD)
  show "previous_clipboard (ticks rds st) = paste (last rds)" if "rds \<noteq> []"
    using that by (rule ticks_previous)
qed

theorem no_repeat_without_blank_read_witness:
  "list_all (\<lambda>rd. strip (paste rd) \<noteq> []) [Some ''A'', Some ''A'', Some ''B'', Some ''A''] \<and>
   fired (previous_clipboard app0) [Some ''A'', Some ''A'', Some ''B'', Some ''A''] = [''A'', ''B'', ''A''] \<and>
   distinct_adj [''A'', ''B'', ''A''] \<and>
   history (ticks [Some ''A'', Some ''A'', Some ''B'', Some ''A''] app0)
     = [user_message ''A'', user_message ''B'', user_message ''A''] \<and>
   previous_clipboard (ticks [Some ''A'', Some ''A'', Some ''B'', Some ''A''] app0) = ''A''"
proof -
  let ?rds = "[Some ''A'', Some ''A'', Some ''B'', Some ''A'']"
  have a: "list_all (\<lambda>rd. strip (paste rd) \<noteq> []) ?rds"
    by (simp add: paste_def strip_def isspace_def)
  have f: "fired (previous_clipboard app0) ?rds = [''A'', ''B'', ''A'']"
    by (simp add: app0_def init_app_def paste_def strip_def isspace_def)
  have h: "history app0 = []" by (simp add: app0_def init_app_def history_def)
  show ?thesis
    using no_repeat_without_blank_read [where rds = ?rds and st = app0] a f h
    by (simp add: paste_def)
qed


section \<open>clear_history\<close>

lemma clear_history_fields:
  "history (clear_history rd st) = []"
  "previous_clipboard (clear_history rd st) = paste rd"
  "response_area (clear_history rd st) = []"
  "current_worker (clear_history rd st) =
     (case active_worker st of None \<Rightarrow> current_worker st | Some w \<Rightarrow> None)"
  "endpoint (clear_history rd st) = endpoint st"
  "api_key (clear_history rd st) = api_key st"
  "system_prompt (clear_history rd st) = system_prompt st"
  "model_name (clear_history rd st) = model_name st"
  "generation_params (clear_history rd st) = generation_params st"
  "custom_params (clear_history rd st) = custom_params st"
  "event_queue (clear_history rd st) = event_queue st"
  "old_workers (clear_history rd st) =
     (case active_worker st of None \<Rightarrow> old_workers st | Some w \<Rightarrow> terminate w # old_workers st)"
  by (simp_all add: clear_history_def new_messages_def history_def active_worker_def Let_def
      split: option.splits)

lemma clear_history_idle: "active_worker (clear_history rd st) = None"
  by (auto simp: active_worker_def clear_history_fields(4) split: option.splits if_splits)


text \<open>
  An instance with the worker in the middle of its stream: one fragment received, one to
  come, and \<open>clear_history\<close> drops the worker.
\<close>

lemma clear_history_mid_stream:
  "current_worker (thread_steps 2 (reply (Inr [Chunk [Some ''Hel''], Chunk [Some ''lo'']]))
      (check_clipboard (Some ''A'') app0))
     = Some (worker0\<lparr>w_messages := 1,
          phase := Streaming [\<lparr>role = ''system'', content = ''Translate.''\<rparr>, user_message ''A'']
                     [Chunk [Some ''lo'']] ''Hel''\<rparr>) \<and>
   current_worker (clear_history (Some ''A'')
     (thread_steps 2 (reply (Inr [Chunk [Some ''Hel''], Chunk [Some ''lo'']]))
        (check_clipboard (Some ''A'') app0))) = None"
  by (simp add: numeral_2_eq_2 thread_step_def worker_step_def reply_def request_of_def
      all_messages_def deliver_def append_token_def check_clipboard_def Let_def
      handle_new_message_def start_worker_def terminate_running_def append_user_message_def
      messages_append_def new_messages_def history_def app0_def init_app_def paste_def
      strip_def isspace_def worker0_def user_message_def clear_history_def isRunning_def)


section \<open>Cancellation\<close>

lemma worker_steps_add:
  "worker_steps (k + n) backend h w =
     (case worker_steps k backend h w of
        (w1, before) \<Rightarrow>
          (case worker_steps n backend h w1 of (w2, later) \<Rightarrow> (w2, before @ later)))"
  by (induction k arbitrary: w) (simp_all split: prod.splits)

lemma worker_step_terminal:
  "worker_step backend h w = (w1, emitted) \<Longrightarrow> filter is_terminal emitted \<noteq> [] \<Longrightarrow>
   phase w1 = Returned"
  by (auto simp: worker_step_def split: phase.splits sum.splits list.splits stream_item.splits
      option.splits)

lemma running_no_terminal:
  "isRunning (fst (worker_steps k backend h w)) \<Longrightarrow>
   filter is_terminal (snd (worker_steps k backend h w)) = []"
proof (induction k arbitrary: w)
  case 0
  show ?case by simp
next
  case (Suc k)
  obtain w1 emitted where s1: "worker_step backend h w = (w1, emitted)"
    by (cases "worker_step backend h w")
  show ?case
  proof (cases "filter is_terminal emitted = []")
    case True
    have "isRunning (fst (worker_steps k backend h w1))"
      using Suc.prems s1 by (simp split: prod.splits)
    then have "filter is_terminal (snd (worker_steps k backend h w1)) = []"
      by (rule Suc.IH)
    then show ?thesis using s1 True by (auto split: prod.splits)
  next
    case False
    then have "phase w1 = Returned" using s1 by (rule worker_step_terminal [rotated])
    then have "worker_steps k backend h w1 = (w1, [])" by (simp add: worker_steps_done)
    then have "\<not> isRunning (fst (worker_steps (Suc k) backend h w))"
      using s1 \<open>phase w1 = Returned\<close> by (simp add: isRunning_def)
    then show ?thesis using Suc.prems by simp
  qed
qed

lemma steps_prefix_of_run:
  assumes "phase w = Pending"
  shows "prefix (snd (worker_steps k backend h w)) (run backend h w)"
proof -
  define n where "n = (case backend (request_of h w) of Inl e \<Rightarrow> 1 | Inr s \<Rightarrow> length s + 2)"
  have big: "case backend (request_of h w) of Inl e \<Rightarrow> 0 < k + n | Inr s \<Rightarrow> length s + 1 < k + n"
    by (simp add: n_def split: sum.splits)
  have "worker_steps (k + n) backend h w = (w\<lparr>phase := Returned\<rparr>, run backend h w)"
    using assms big by (rule worker_steps_run)
  then have "run backend h w =
      snd (worker_steps k backend h w) @ snd (worker_steps n backend h (fst (worker_steps k backend h w)))"
    by (simp add: worker_steps_add split: prod.splits)
  then show ?thesis by (simp add: prefix_def)
qed

lemma cancelled_session_eq:
  "cancelled_session k n backend h w = snd (worker_steps k backend h w)"
  by (simp add: cancelled_session_def worker_steps_killed split: prod.splits)

text \<open>
  A session killed after its first fragment: the fragment is all it ever emits. No
  \<open>error\<close> signal follows, of a cancellation kind or any other.
\<close>

theorem cancelled_session_counterexample:
  "cancelled_session 2 5 (reply (Inr [Chunk [Some ''a''], Chunk [Some ''b'']])) (heap app0) worker0
     = [token_received ''a'']"
  by (simp add: cancelled_session_eq numeral_2_eq_2 worker_step_def reply_def worker0_def)

section \<open>The list of messages a worker holds\<close>

lemma worker_step_not_pending:
  "phase w \<noteq> Pending \<Longrightarrow> worker_step backend h' w = worker_step backend h w"
  by (simp add: worker_step_def split: phase.splits)

lemma worker_step_stays:
  "phase w \<noteq> Pending \<Longrightarrow> phase (fst (worker_step backend h w)) \<noteq> Pending"
  by (auto simp: worker_step_def split: phase.splits list.splits stream_item.splits option.splits)

lemma worker_steps_not_pending:
  "phase w \<noteq> Pending \<Longrightarrow> worker_steps n backend h' w = worker_steps n backend h w"
proof (induction n arbitrary: w)
  case 0
  show ?case by simp
next
  case (Suc n)
  obtain w1 emitted where s1: "worker_step backend h w = (w1, emitted)"
    by (cases "worker_step backend h w")
  have s2: "worker_step backend h' w = (w1, emitted)"
    using worker_step_not_pending [OF Suc.prems, of backend h' h] s1 by simp
  have "phase w1 \<noteq> Pending"
    using worker_step_stays [OF Suc.prems, of backend h] s1 by simp
  then have "worker_steps n backend h' w1 = worker_steps n backend h w1"
    by (rule Suc.IH)
  then show ?case by (simp add: s1 s2)
qed

lemma worker_step_sent:
  "phase w = Streaming sent s acc \<Longrightarrow>
   phase (fst (worker_step backend h w)) = Returned \<or>
   (\<exists>s' acc'. phase (fst (worker_step backend h w)) = Streaming sent s' acc')"
  by (auto simp: worker_step_def split: list.splits stream_item.splits option.splits)

lemma worker_steps_sent:
  "phase w = Streaming sent s acc \<Longrightarrow> isRunning (fst (worker_steps n backend h w)) \<Longrightarrow>
   sent_messages (fst (worker_steps n backend h w)) = Some sent"
proof (induction n arbitrary: w s acc)
  case 0
  then show ?case by (simp add: sent_messages_def)
next
  case (Suc n)
  obtain w1 emitted where s1: "worker_step backend h w = (w1, emitted)"
    by (cases "worker_step backend h w")
  have eq: "fst (worker_steps (Suc n) backend h w) = fst (worker_steps n backend h w1)"
    by (simp add: s1 split: prod.splits)
  consider "phase w1 = Returned" | s' acc' where "phase w1 = Streaming sent s' acc'"
    using worker_step_sent [OF Suc.prems(1), of backend h] s1 by auto
  then show ?case
  proof cases
    case 1
    then have "worker_steps n backend h w1 = (w1, [])" by (simp add: worker_steps_done)
    then have "\<not> isRunning (fst (worker_steps n backend h w1))"
      using 1 by (simp add: isRunning_def)
    then have "\<not> isRunning (fst (worker_steps (Suc n) backend h w))"
      using eq by metis
    then show ?thesis using Suc.prems(2) by blast
  next
    case 2
    have "isRunning (fst (worker_steps n backend h w1))" using Suc.prems(2) eq by metis
    then have "sent_messages (fst (worker_steps n backend h w1)) = Some sent"
      using 2 by (intro Suc.IH)
    then show ?thesis using eq by metis
  qed
qed

text \<open>
  A worker is started for \<open>A\<close>; before its thread has built the request, the user
  message of the next turn is appended (lines 548 to 551 of the superseding call); the
  thread then sends the system prompt, \<open>A\<close> and \<open>B\<close>.
\<close>

theorem shared_list_counterexample:
  "history (check_clipboard (Some ''A'') app0) = [user_message ''A''] \<and>
   Option.bind
     (current_worker (thread_step (reply (Inr []))
        (append_user_message ''B'' (check_clipboard (Some ''A'') app0))))
     sent_messages
   = Some [\<lparr>role = ''system'', content = ''Translate.''\<rparr>, user_message ''A'', user_message ''B'']"
  by (simp add: thread_step_def worker_step_def reply_def request_of_def
      all_messages_def check_clipboard_def Let_def sent_messages_def
      handle_new_message_def start_worker_def terminate_running_def append_user_message_def
      messages_append_def new_messages_def history_def app0_def init_app_def paste_def
      strip_def isspace_def user_message_def)

text \<open>
  Claim C9, amended. A worker is created with the address of the window's list of
  messages, not with a copy. Its thread reads the list once, when it builds the request:
  what it sends is the system message followed by the content of the list at that moment,
  and an append made by the window in between is made to that same list. From then on the
  thread does not read the store: its steps are the same whatever the store holds, and as
  long as it runs what it has sent stays what it was. \<open>clear_history\<close> gives the window a
  new list and leaves the old one, the worker's, as it was.
\<close>

theorem request_reads_shared_list:
  "(\<exists>w. current_worker (start_worker st) = Some w \<and> w_messages w = messages st \<and>
        phase w = Pending) \<and>
   (phase w = Pending \<and> backend (request_of h w) = Inr s \<longrightarrow>
      sent_messages (fst (worker_step backend h w)) =
        Some (\<lparr>role = ''system'', content = w_system_prompt w\<rparr> # h (w_messages w))) \<and>
   (history st \<noteq> [] \<longrightarrow>
      messages (append_user_message m st) = messages st \<and>
      heap (append_user_message m st) (messages st) = heap st (messages st) @ [user_message m]) \<and>
   (phase w = Streaming sent s acc \<longrightarrow>
      worker_steps n backend h' w = worker_steps n backend h w \<and>
      (isRunning (fst (worker_steps n backend h w)) \<longrightarrow>
         sent_messages (fst (worker_steps n backend h w)) = Some sent)) \<and>
   (messages st < next_addr st \<longrightarrow>
      heap (clear_history rd st) (messages st) = heap st (messages st))"
proof (intro conjI impI)
  show "\<exists>w. current_worker (start_worker st) = Some w \<and> w_messages w = messages st \<and>
        phase w = Pending"
    by (simp add: start_worker_def)
  show "sent_messages (fst (worker_step backend h w)) =
        Some (\<lparr>role = ''system'', content = w_system_prompt w\<rparr> # h (w_messages w))"
    if "phase w = Pending \<and> backend (request_of h w) = Inr s"
    using that by (simp add: worker_step_def sent_messages_def all_messages_def)
  show "messages (append_user_message m st) = messages st" if "history st \<noteq> []"
    using that by (simp add: append_user_message_def messages_append_def)
  show "heap (append_user_message m st) (messages st) = heap st (messages st) @ [user_message m]"
    if "history st \<noteq> []"
    using that by (simp add: append_user_message_def messages_append_def user_message_def)
  show "worker_steps n backend h' w = worker_steps n backend h w"
    if "phase w = Streaming sent s acc"
    using that by (intro worker_steps_not_pending) simp
  show "sent_messages (fst (worker_steps n backend h w)) = Some sent"
    if "phase w = Streaming sent s acc" and "isRunning (fst (worker_steps n backend h w))"
    using that by (rule worker_steps_sent)
  show "heap (clear_history rd st) (messages st) = heap st (messages st)"
    if "messages st < next_addr st"
    using that by (simp add: clear_history_def new_messages_def Let_def split: option.splits)
qed

theorem request_reads_shared_list_witness:
  "phase worker0 = Pending \<and>
   sent_messages (fst (worker_step (reply (Inr [Chunk [Some ''x'']]))
      ((heap app0)(0 := [user_message ''A''])) worker0))
     = Some [\<lparr>role = ''system'', content = ''Translate.''\<rparr>, user_message ''A''] \<and>
   history (check_clipboard (Some ''A'') app0) \<noteq> [] \<and>
   heap (append_user_message ''B'' (check_clipboard (Some ''A'') app0))
      (messages (check_clipboard (Some ''A'') app0)) = [user_message ''A'', user_message ''B''] \<and>
   worker_steps 1 (reply (Inr []))
      ((heap app0)(0 := [user_message ''B'']))
      (worker0\<lparr>phase := Streaming [user_message ''A''] [Chunk [Some ''x'']] []\<rparr>)
     = worker_steps 1 (reply (Inr [])) (heap app0)
      (worker0\<lparr>phase := Streaming [user_message ''A''] [Chunk [Some ''x'']] []\<rparr>) \<and>
   sent_messages (fst (worker_steps 1 (reply (Inr [])) (heap app0)
      (worker0\<lparr>phase := Streaming [user_message ''A''] [Chunk [Some ''x'']] []\<rparr>)))
     = Some [user_message ''A''] \<and>
   messages (check_clipboard (Some ''A'') app0) < next_addr (check_clipboard (Some ''A'') app0) \<and>
   heap (clear_history None (check_clipboard (Some ''A'') app0))
      (messages (check_clipboard (Some ''A'') app0)) = [user_message ''A'']"
proof -
  let ?be = "reply (Inr [Chunk [Some ''x'']]) :: (unit, unit) request \<Rightarrow> response"
  let ?none = "reply (Inr []) :: (unit, unit) request \<Rightarrow> response"
  let ?h = "(heap app0)(0 := [user_message ''A''])"
  let ?st = "check_clipboard (Some ''A'') app0"
  let ?w = "worker0\<lparr>phase := Streaming [user_message ''A''] [Chunk [Some ''x'']] []\<rparr>"
  have nbA: "strip ''A'' \<noteq> []" by (simp add: strip_def isspace_def)
  have p0: "previous_clipboard app0 = []" "history app0 = []"
    by (simp_all add: app0_def init_app_def paste_def history_def)
  have st: "?st = handle_new_message ''A'' (app0\<lparr>previous_clipboard := ''A''\<rparr>)"
    using p0 by (simp add: check_clipboard_def Let_def paste_def)
  have hist: "history ?st = [user_message ''A'']"
    unfolding st using p0 by (simp add: handle_new_message_fields(1) [OF nbA])
  have hne: "history ?st \<noteq> []" by (simp add: hist)
  have hp: "heap ?st (messages ?st) = [user_message ''A'']"
    using hist by (simp add: history_def)
  have lt: "messages ?st < next_addr ?st"
    unfolding st using nbA
    by (simp add: handle_new_message_def start_worker_def terminate_running_def
        append_user_message_def messages_append_def new_messages_def app0_def init_app_def
        history_def)
  have pend: "phase worker0 = Pending" by (simp add: worker0_def)
  have be: "?be (request_of ?h worker0) = Inr [Chunk [Some ''x'']]" by (simp add: reply_def)
  have str: "phase ?w = Streaming [user_message ''A''] [Chunk [Some ''x'']] []" by simp
  have run: "isRunning (fst (worker_steps 1 ?none (heap app0) ?w))"
    by (simp add: worker_step_def isRunning_def)
  note T1 = request_reads_shared_list [where w = worker0 and backend = ?be and h = ?h
      and s = "[Chunk [Some ''x'']]" and st = ?st and m = "''B''" and rd = None]
  note T2 = request_reads_shared_list [where w = ?w and backend = ?none and h = "heap app0"
      and h' = "(heap app0)(0 := [user_message ''B''])" and sent = "[user_message ''A'']"
      and s = "[Chunk [Some ''x'']]" and acc = "[]" and n = 1 and st = ?st]
  have "sent_messages (fst (worker_step ?be ?h worker0)) =
      Some (\<lparr>role = ''system'', content = w_system_prompt worker0\<rparr> # ?h (w_messages worker0))"
    using T1 pend be by blast
  then have 1: "sent_messages (fst (worker_step ?be ?h worker0))
     = Some [\<lparr>role = ''system'', content = ''Translate.''\<rparr>, user_message ''A'']"
    by (simp add: worker0_def)
  have "heap (append_user_message ''B'' ?st) (messages ?st) = heap ?st (messages ?st) @ [user_message ''B'']"
    using T1 hne by blast
  then have 2: "heap (append_user_message ''B'' ?st) (messages ?st) = [user_message ''A'', user_message ''B'']"
    by (simp add: hp)
  have 3: "worker_steps 1 ?none ((heap app0)(0 := [user_message ''B''])) ?w
      = worker_steps 1 ?none (heap app0) ?w"
    using T2 str by blast
  have 4: "sent_messages (fst (worker_steps 1 ?none (heap app0) ?w)) = Some [user_message ''A'']"
    using T2 str run by blast
  have "heap (clear_history None ?st) (messages ?st) = heap ?st (messages ?st)"
    using T1 lt by blast
  then have 5: "heap (clear_history None ?st) (messages ?st) = [user_message ''A'']"
    by (simp add: hp)
  show ?thesis using pend 1 hne 2 3 4 lt 5 by blast
qed


section \<open>Schedules of the threads and the window\<close>

lemma thread_step_at_once:
  "event_queue st = [] \<Longrightarrow> thread_step backend st = deliver_next (emit_step backend st)"
  by (auto simp: thread_step_def emit_step_def deliver_next_def worker_step_def deliver_def
      append_token_def finish_response_def display_error_def messages_append_def
      split: option.splits phase.splits sum.splits list.splits stream_item.splits)

lemma completions_append [simp]: "completions (xs @ ys) = completions xs @ completions ys"
  by (induction xs rule: completions.induct) simp_all

lemma history_queue_updates [simp]:
  "history (st\<lparr>event_queue := q\<rparr>) = history st"
  "history (st\<lparr>old_workers := ws\<rparr>) = history st"
  by (simp_all add: history_def)

lemma history_deliver:
  "history (deliver sig st) = history st @ map assistant_message (completions [sig])"
  by (cases sig) (simp_all add: deliver_def history_finish_response)

lemma deliver_keeps:
  "event_queue (deliver sig st) = event_queue st"
  "current_worker (deliver sig st) = current_worker st"
  "old_workers (deliver sig st) = old_workers st"
  "previous_clipboard (deliver sig st) = previous_clipboard st"
  by (cases sig; simp add: slot_defs)+

lemma worker_step_remaining:
  "worker_step (\<lambda>req. resp) h w = (w1, emitted) \<Longrightarrow>
   emitted @ remaining resp w1 = remaining resp w"
  by (auto simp: worker_step_def remaining_def
      split: phase.splits sum.splits list.splits stream_item.splits option.splits)

lemma not_running_step:
  "\<not> isRunning w \<Longrightarrow> worker_step backend h w = (w, [])"
  by (auto simp: isRunning_def worker_step_def split: phase.splits)

lemma not_running_remaining: "\<not> isRunning w \<Longrightarrow> remaining resp w = []"
  by (auto simp: isRunning_def remaining_def split: phase.splits)

lemma old_emit_step_stopped:
  "stopped (old_workers st) \<Longrightarrow> old_emit_step i backend st = st"
  by (simp add: old_emit_step_def stopped_def list_all_length not_running_step)

lemma emit_step_conserves:
  "history (emit_step (\<lambda>req. resp) st) = history st \<and>
   old_workers (emit_step (\<lambda>req. resp) st) = old_workers st \<and>
   previous_clipboard (emit_step (\<lambda>req. resp) st) = previous_clipboard st \<and>
   event_queue (emit_step (\<lambda>req. resp) st) @
     (case current_worker (emit_step (\<lambda>req. resp) st) of None \<Rightarrow> [] | Some w \<Rightarrow> remaining resp w)
   = event_queue st @ (case current_worker st of None \<Rightarrow> [] | Some w \<Rightarrow> remaining resp w)"
proof (cases "current_worker st")
  case None
  then show ?thesis by (simp add: emit_step_def)
next
  case (Some w)
  obtain w1 emitted where s1: "worker_step (\<lambda>req. resp) (heap st) w = (w1, emitted)"
    by (cases "worker_step (\<lambda>req. resp) (heap st) w")
  show ?thesis
    using Some s1 worker_step_remaining [OF s1]
    by (simp add: emit_step_def history_def)
qed

lemma deliver_next_conserves:
  "history (deliver_next st) @ map assistant_message (completions (event_queue (deliver_next st)))
     = history st @ map assistant_message (completions (event_queue st)) \<and>
   old_workers (deliver_next st) = old_workers st \<and>
   previous_clipboard (deliver_next st) = previous_clipboard st \<and>
   current_worker (deliver_next st) = current_worker st"
proof (cases "event_queue st")
  case Nil
  then show ?thesis by (simp add: deliver_next_def)
next
  case (Cons sig rest)
  have split: "completions (sig # rest) = completions [sig] @ completions rest"
    using completions_append [of "[sig]" rest] by simp
  show ?thesis
    unfolding Cons split
    by (simp add: deliver_next_def Cons history_deliver deliver_keeps)
qed

lemma play_conserves:
  "stopped (old_workers st) \<Longrightarrow>
   owed resp (play sched (\<lambda>req. resp) st) = owed resp st \<and>
   old_workers (play sched (\<lambda>req. resp) st) = old_workers st \<and>
   previous_clipboard (play sched (\<lambda>req. resp) st) = previous_clipboard st"
proof (induction sched arbitrary: st)
  case Nil
  show ?case by simp
next
  case (Cons a sched)
  show ?case
  proof (cases a)
    case Emit
    let ?st1 = "emit_step (\<lambda>req. resp) st"
    have c: "history ?st1 = history st" "old_workers ?st1 = old_workers st"
      "previous_clipboard ?st1 = previous_clipboard st"
      "event_queue ?st1 @ (case current_worker ?st1 of None \<Rightarrow> [] | Some w \<Rightarrow> remaining resp w)
        = event_queue st @ (case current_worker st of None \<Rightarrow> [] | Some w \<Rightarrow> remaining resp w)"
      using emit_step_conserves [of resp st] by blast+
    have o: "owed resp ?st1 = owed resp st"
      unfolding owed_def c(1) c(4) ..
    have "stopped (old_workers ?st1)" using Cons.prems c(2) by simp
    from Cons.IH [OF this] show ?thesis using Emit o c by simp
  next
    case (Emit_old i)
    have "old_emit_step i (\<lambda>req. resp) st = st"
      using Cons.prems by (rule old_emit_step_stopped)
    then show ?thesis using Emit_old Cons.IH [OF Cons.prems] by simp
  next
    case Deliver
    let ?st1 = "deliver_next st"
    have c: "history ?st1 @ map assistant_message (completions (event_queue ?st1))
        = history st @ map assistant_message (completions (event_queue st))"
      "old_workers ?st1 = old_workers st" "previous_clipboard ?st1 = previous_clipboard st"
      "current_worker ?st1 = current_worker st"
      using deliver_next_conserves [of st] by blast+
    have o: "owed resp ?st1 = owed resp st"
      using c(1) by (simp add: owed_def c(4))
    have "stopped (old_workers ?st1)" using Cons.prems c(2) by simp
    from Cons.IH [OF this] show ?thesis using Deliver o c by simp
  qed
qed

section \<open>Turns under a schedule\<close>

lemma completions_stream_loop:
  "stream_failure s = None \<Longrightarrow> completions (stream_loop s acc) = [acc @ stream_text s]"
  by (induction s acc rule: stream_loop.induct) simp_all

lemma handle_new_message_queue:
  "event_queue (handle_new_message m st) = event_queue st"
  by (simp add: handle_new_message_def start_worker_def terminate_running_def
      append_user_message_def messages_append_def new_messages_def split: option.splits)

lemma handle_new_message_old:
  "strip m \<noteq> [] \<Longrightarrow>
   old_workers (handle_new_message m st) =
     (case current_worker st of
        None \<Rightarrow> old_workers st
      | Some w \<Rightarrow> (if isRunning w then terminate w else w) # old_workers st)"
  by (simp add: handle_new_message_def start_worker_def terminate_running_def
      append_user_message_def messages_append_def new_messages_def split: option.splits)

lemma not_running_terminate [simp]: "\<not> isRunning (terminate w)"
  by (simp add: isRunning_def terminate_def)

lemma handle_new_message_stopped:
  assumes "stopped (old_workers st)"
  shows "stopped (old_workers (handle_new_message m st))"
proof (cases "strip m = []")
  case True
  then show ?thesis using assms by (simp add: handle_new_message_def)
next
  case False
  show ?thesis using assms
    by (simp add: handle_new_message_old [OF False] stopped_def split: option.splits)
qed

lemma clear_history_stopped:
  "stopped (old_workers st) \<Longrightarrow> stopped (old_workers (clear_history rd st))"
  by (simp add: clear_history_fields(12) stopped_def split: option.splits)

lemma play_stopped:
  "stopped (old_workers st) \<Longrightarrow> stopped (old_workers (play sched backend st))"
proof (induction sched arbitrary: st)
  case Nil
  then show ?case by simp
next
  case (Cons a sched)
  show ?case
  proof (cases a)
    case Emit
    have "old_workers (emit_step backend st) = old_workers st"
      by (simp add: emit_step_def split: option.splits prod.splits)
    then show ?thesis using Emit Cons by simp
  next
    case (Emit_old i)
    then show ?thesis using Cons by (simp add: old_emit_step_stopped)
  next
    case Deliver
    have "old_workers (deliver_next st) = old_workers st"
      using deliver_next_conserves [of st] by blast
    then show ?thesis using Deliver Cons by simp
  qed
qed

lemma settled_owed:
  "settled st \<Longrightarrow> owed resp st = history st"
  by (auto simp: settled_def owed_def not_running_remaining split: option.splits)

lemma turn_settled:
  assumes q: "event_queue st = []" and o: "stopped (old_workers st)"
    and c: "m \<noteq> previous_clipboard st" and nb: "strip m \<noteq> []"
    and ok: "stream_failure s = None" and fin: "settled (turn (m, s, sched) st)"
  shows "history (turn (m, s, sched) st) = history st @ [user_message m, assistant_message (stream_text s)]"
    and "previous_clipboard (turn (m, s, sched) st) = m"
    and "event_queue (turn (m, s, sched) st) = []"
    and "stopped (old_workers (turn (m, s, sched) st))"
proof -
  let ?st1 = "handle_new_message m (st\<lparr>previous_clipboard := m\<rparr>)"
  have cc: "check_clipboard (Some m) st = ?st1"
    using c by (simp add: check_clipboard_def Let_def paste_def)
  have t: "turn (m, s, sched) st = play sched (\<lambda>req. Inr s) ?st1"
    by (simp add: turn_def cc)
  obtain w where w: "current_worker ?st1 = Some w" "phase w = Pending"
    using handle_new_message_fields(4) [OF nb] by blast
  have q1: "event_queue ?st1 = []" using q by (simp add: handle_new_message_queue)
  have o1: "stopped (old_workers ?st1)"
    using o by (intro handle_new_message_stopped) simp
  have h1: "history ?st1 = history st @ [user_message m]"
    by (simp add: handle_new_message_fields(1) [OF nb])
  have p1: "previous_clipboard ?st1 = m"
    by (simp add: handle_new_message_fields(3) [OF nb])
  have owed1: "owed (Inr s) ?st1 = history st @ [user_message m, assistant_message (stream_text s)]"
    using w q1 h1 ok by (simp add: owed_def remaining_def completions_stream_loop)
  note pc = play_conserves [OF o1, of "Inr s" sched]
  have "owed (Inr s) (turn (m, s, sched) st) = owed (Inr s) ?st1"
    unfolding t using pc by blast
  then show "history (turn (m, s, sched) st) = history st @ [user_message m, assistant_message (stream_text s)]"
    using settled_owed [OF fin, of "Inr s"] owed1 by simp
  show "previous_clipboard (turn (m, s, sched) st) = m"
    unfolding t using pc p1 by simp
  show "event_queue (turn (m, s, sched) st) = []"
    using fin by (simp add: settled_def)
  show "stopped (old_workers (turn (m, s, sched) st))"
    unfolding t using pc o1 by simp
qed

lemma turns_settled_history:
  "event_queue st = [] \<Longrightarrow> stopped (old_workers st) \<Longrightarrow>
   changes (previous_clipboard st) (map fst ts) \<Longrightarrow>
   list_all (\<lambda>t. stream_failure (fst (snd t)) = None) ts \<Longrightarrow> all_settled ts st \<Longrightarrow>
   history (turns ts st) =
     history st @ concat (map (\<lambda>t. [user_message (fst t), assistant_message (stream_text (fst (snd t)))]) ts)"
proof (induction ts arbitrary: st)
  case Nil
  show ?case by simp
next
  case (Cons t ts)
  obtain m s sched where t: "t = (m, s, sched)" by (cases t)
  have a: "m \<noteq> previous_clipboard st" "strip m \<noteq> []" "stream_failure s = None"
    "settled (turn (m, s, sched) st)"
    using Cons.prems t by simp_all
  note ts = turn_settled [OF Cons.prems(1) Cons.prems(2) a]
  have "history (turns ts (turn t st)) =
     history (turn t st) @ concat (map (\<lambda>t. [user_message (fst t), assistant_message (stream_text (fst (snd t)))]) ts)"
    using Cons.prems ts t by (intro Cons.IH) simp_all
  then show ?case using ts(1) t by simp
qed

lemma roles_of_settled_turns:
  "map role (concat (map (\<lambda>t. [user_message (fst t), assistant_message (stream_text (fst (snd t)))]) ts))
     = concat (replicate (length ts) [''user'', ''assistant''])"
  by (induction ts) (simp_all add: user_message_def assistant_message_def)

lemma length_of_settled_turns:
  "length (concat (map (\<lambda>t. [user_message (fst t), assistant_message (stream_text (fst (snd t)))]) ts))
     = 2 * length ts"
  by (induction ts) simp_all

lemma history_emit_step: "history (emit_step backend st) = history st"
  by (simp add: emit_step_def history_def split: option.splits prod.splits)

lemma history_old_emit_step: "history (old_emit_step i backend st) = history st"
  by (simp add: old_emit_step_def history_def split: prod.splits)

lemma history_deliver_next:
  "history (deliver_next st) =
     (case event_queue st of
        finished f # rest \<Rightarrow> history st @ [assistant_message f]
      | _ \<Rightarrow> history st)"
  by (simp add: deliver_next_def deliver_def history_finish_response
      split: list.splits signal.splits)

lemmas window_defs = check_clipboard_def Let_def handle_new_message_def start_worker_def
  terminate_running_def append_user_message_def messages_append_def new_messages_def
  history_def paste_def strip_def isspace_def isRunning_def terminate_def

lemmas schedule_defs = emit_step_def old_emit_step_def deliver_next_def deliver_def
  append_token_def finish_response_def display_error_def worker_step_def request_of_def
  all_messages_def

text \<open>
  Two turns whose sessions both complete. The thread for \<open>A\<close> returns before the window
  has handled its signals; the tick for \<open>B\<close> appends its user message and kills nothing,
  as the worker is no longer running; only then is the \<open>finished\<close> of \<open>A\<close> handled.
  The history reads user, user, assistant, assistant.
\<close>

theorem queued_finish_counterexample:
  "map role (history (turns
      [(''A'', [Chunk [Some ''ab'']], [Emit, Emit, Emit]),
       (''B'', [Chunk [Some ''cd'']], [Deliver, Deliver, Emit, Emit, Emit, Deliver, Deliver])]
      app0))
     = [''user'', ''user'', ''assistant'', ''assistant''] \<and>
   map content (history (turns
      [(''A'', [Chunk [Some ''ab'']], [Emit, Emit, Emit]),
       (''B'', [Chunk [Some ''cd'']], [Deliver, Deliver, Emit, Emit, Emit, Deliver, Deliver])]
      app0))
     = [''A'', ''B'', ''ab'', ''cd'']"
  by (simp add: turn_def app0_def init_app_def window_defs schedule_defs)

text \<open>
  Claim C5, amended. Start from an empty history with nothing queued, and let each of
  \<open>N\<close> turns be a change of the clipboard to a text that is not blank, answered by a
  stream that ends without an exception. If every turn is settled before the next begins
  (its worker has returned and the window has handled every signal it emitted, in whatever
  order the steps of the threads and the handling were scheduled within the turn), the
  history holds exactly \<open>2N\<close> messages: user, assistant, user, assistant, in the order
  of the turns, the assistant's content being the text streamed in its turn. An assistant
  message is appended only when the window handles a \<open>finished\<close> signal: steps of the
  threads leave the history as it is, a run emits \<open>finished\<close> only if its response meets
  no exception, and a killed thread emits nothing.
\<close>

theorem settled_turns_alternate:
  "(history st = [] \<and> event_queue st = [] \<and> stopped (old_workers st) \<and>
    changes (previous_clipboard st) (map fst ts) \<and>
    list_all (\<lambda>t. stream_failure (fst (snd t)) = None) ts \<and> all_settled ts st \<longrightarrow>
      history (turns ts st) =
        concat (map (\<lambda>t. [user_message (fst t), assistant_message (stream_text (fst (snd t)))]) ts) \<and>
      length (history (turns ts st)) = 2 * length ts \<and>
      map role (history (turns ts st)) = concat (replicate (length ts) [''user'', ''assistant''])) \<and>
   history (deliver_next st) =
     (case event_queue st of
        finished f # rest \<Rightarrow> history st @ [assistant_message f]
      | _ \<Rightarrow> history st) \<and>
   history (emit_step backend st) = history st \<and>
   history (old_emit_step i backend st) = history st \<and>
   (finished full \<in> set (run backend h w) \<longrightarrow> failure (backend (request_of h w)) = None) \<and>
   worker_steps n backend h (terminate w) = (terminate w, [])"
proof (intro conjI impI)
  assume a: "history st = [] \<and> event_queue st = [] \<and> stopped (old_workers st) \<and>
    changes (previous_clipboard st) (map fst ts) \<and>
    list_all (\<lambda>t. stream_failure (fst (snd t)) = None) ts \<and> all_settled ts st"
  then have h: "history (turns ts st) =
        concat (map (\<lambda>t. [user_message (fst t), assistant_message (stream_text (fst (snd t)))]) ts)"
    using turns_settled_history [of st ts] by simp
  show "history (turns ts st) =
        concat (map (\<lambda>t. [user_message (fst t), assistant_message (stream_text (fst (snd t)))]) ts)"
    by (rule h)
  show "length (history (turns ts st)) = 2 * length ts"
    unfolding h by (rule length_of_settled_turns)
  show "map role (history (turns ts st)) = concat (replicate (length ts) [''user'', ''assistant''])"
    unfolding h by (rule roles_of_settled_turns)
next
  show "history (deliver_next st) =
     (case event_queue st of
        finished f # rest \<Rightarrow> history st @ [assistant_message f]
      | _ \<Rightarrow> history st)"
    by (rule history_deliver_next)
  show "history (emit_step backend st) = history st" by (rule history_emit_step)
  show "history (old_emit_step i backend st) = history st" by (rule history_old_emit_step)
  show "worker_steps n backend h (terminate w) = (terminate w, [])"
    by (rule worker_steps_killed)
next
  assume "finished full \<in> set (run backend h w)"
  then show "failure (backend (request_of h w)) = None"
    by (cases "backend (request_of h w)")
      (auto simp: run_def failure_def dest: stream_loop_finished_ok)
qed

theorem settled_turns_alternate_witness:
  "history app0 = [] \<and> event_queue app0 = [] \<and> stopped (old_workers app0) \<and>
   changes (previous_clipboard app0) (map fst
     [(''A'', [Chunk [Some ''Hel''], Chunk [Some ''lo'']], [Emit, Emit, Deliver, Emit, Emit, Deliver, Deliver]),
      (''B'', [Chunk [None], Chunk [Some ''x'']], [Emit, Emit, Emit, Emit, Deliver, Deliver])]) \<and>
   list_all (\<lambda>t. stream_failure (fst (snd t)) = None)
     [(''A'', [Chunk [Some ''Hel''], Chunk [Some ''lo'']], [Emit, Emit, Deliver, Emit, Emit, Deliver, Deliver]),
      (''B'', [Chunk [None], Chunk [Some ''x'']], [Emit, Emit, Emit, Emit, Deliver, Deliver])] \<and>
   all_settled
     [(''A'', [Chunk [Some ''Hel''], Chunk [Some ''lo'']], [Emit, Emit, Deliver, Emit, Emit, Deliver, Deliver]),
      (''B'', [Chunk [None], Chunk [Some ''x'']], [Emit, Emit, Emit, Emit, Deliver, Deliver])] app0 \<and>
   history (turns
     [(''A'', [Chunk [Some ''Hel''], Chunk [Some ''lo'']], [Emit, Emit, Deliver, Emit, Emit, Deliver, Deliver]),
      (''B'', [Chunk [None], Chunk [Some ''x'']], [Emit, Emit, Emit, Emit, Deliver, Deliver])] app0)
     = [user_message ''A'', assistant_message ''Hello'', user_message ''B'', assistant_message ''x''] \<and>
   finished ''Hello'' \<in> set (run (reply (Inr [Chunk [Some ''Hel''], Chunk [Some ''lo'']])) (heap app0) worker0) \<and>
   failure (Inr [Chunk [Some ''Hel''], Chunk [Some ''lo'']]) = None"
proof -
  let ?ts = "[(''A'', [Chunk [Some ''Hel''], Chunk [Some ''lo'']], [Emit, Emit, Deliver, Emit, Emit, Deliver, Deliver]),
      (''B'', [Chunk [None], Chunk [Some ''x'']], [Emit, Emit, Emit, Emit, Deliver, Deliver])]"
  let ?be = "reply (Inr [Chunk [Some ''Hel''], Chunk [Some ''lo'']]) :: (unit, unit) request \<Rightarrow> response"
  have a: "history app0 = []" "event_queue app0 = []" "stopped (old_workers app0)"
    by (simp_all add: app0_def init_app_def history_def stopped_def)
  have b: "changes (previous_clipboard app0) (map fst ?ts)"
    by (simp add: app0_def init_app_def paste_def strip_def isspace_def)
  have c: "list_all (\<lambda>t. stream_failure (fst (snd t)) = None) ?ts" by simp
  have s: "all_settled ?ts app0"
    by (simp add: settled_def turn_def app0_def init_app_def window_defs schedule_defs)
  have d: "finished ''Hello'' \<in> set (run ?be (heap app0) worker0)"
    by (simp add: run_def reply_def)
  have f: "failure (?be (request_of (heap app0) worker0)) = failure (Inr [Chunk [Some ''Hel''], Chunk [Some ''lo'']])"
    by (simp add: reply_def)
  note T = settled_turns_alternate [where st = app0 and ts = ?ts and full = "''Hello''"
        and backend = ?be and h = "heap app0" and w = worker0]
  have 1: "history (turns ?ts app0) =
      concat (map (\<lambda>t. [user_message (fst t), assistant_message (stream_text (fst (snd t)))]) ?ts)"
    using T a b c s by blast
  have 2: "failure (?be (request_of (heap app0) worker0)) = None"
    using T d by blast
  have 3: "history (turns ?ts app0)
     = [user_message ''A'', assistant_message ''Hello'', user_message ''B'', assistant_message ''x'']"
    unfolding 1 by simp
  have 4: "failure (Inr [Chunk [Some ''Hel''], Chunk [Some ''lo'']]) = None"
    using 2 f by simp
  show ?thesis using a b c s d 3 4 by blast
qed

section \<open>The cancel in the window\<close>

lemma handle_new_message_kills:
  "active_worker st = Some w \<Longrightarrow> strip m \<noteq> [] \<Longrightarrow>
   old_workers (handle_new_message m st) = terminate w # old_workers st"
  by (auto simp: handle_new_message_old active_worker_def split: option.splits if_splits)

lemma clear_history_kills:
  "active_worker st = Some w \<Longrightarrow>
   old_workers (clear_history rd st) = terminate w # old_workers st \<and>
   current_worker (clear_history rd st) = None"
  by (simp add: clear_history_fields(4,12))

text \<open>
  A fragment emitted before the cancel and still queued is handled after it: the worker
  for \<open>A\<close> has emitted \<open>a\<close>, the tick for \<open>B\<close> clears the area and kills the
  worker, and the window then appends \<open>a\<close> to the area of the new turn.
\<close>

lemma fragment_handled_after_cancel:
  "response_area (deliver_next (check_clipboard (Some ''B'')
      (play [Emit, Emit] (reply (Inr [Chunk [Some ''a''], Chunk [Some ''b'']]))
         (check_clipboard (Some ''A'') app0)))) = ''a'' \<and>
   map phase (old_workers (check_clipboard (Some ''B'')
      (play [Emit, Emit] (reply (Inr [Chunk [Some ''a''], Chunk [Some ''b'']]))
         (check_clipboard (Some ''A'') app0)))) = [Killed]"
  by (simp add: app0_def init_app_def reply_def window_defs schedule_defs)

text \<open>
  Claim C1, amended. When a new message supersedes a running worker, and when
  \<open>clear_history\<close> finds one, the window kills exactly that worker: the worker it lets go
  of is the running one with its thread in the state \<open>Killed\<close>. \<open>terminate()\<close> emits
  no signal, and a killed thread emits none afterwards, neither a fragment nor a terminal
  signal: as long as the workers let go of so far are stopped they stay stopped through
  every command of the window and every schedule, and a step of any of their threads
  changes nothing. The cancel leaves the queue as it is, so what the worker emitted before
  the kill and the window has not yet handled is still handled after it. What a thread
  emits before it is killed is a prefix of the signals of its full run, and holds no
  terminal signal if the thread is still running at the kill: a cancelled session has no
  terminal event, of a cancellation kind or any other.
\<close>

theorem cancel_kills_the_worker:
  "(active_worker st = Some w \<and> strip m \<noteq> [] \<longrightarrow>
      old_workers (handle_new_message m st) = terminate w # old_workers st \<and>
      event_queue (handle_new_message m st) = event_queue st \<and>
      response_area (handle_new_message m st) = [] \<and>
      history (handle_new_message m st) = history st @ [user_message m] \<and>
      (\<exists>w'. current_worker (handle_new_message m st) = Some w' \<and> phase w' = Pending)) \<and>
   (active_worker st = Some w \<longrightarrow>
      old_workers (clear_history rd st) = terminate w # old_workers st \<and>
      current_worker (clear_history rd st) = None \<and>
      event_queue (clear_history rd st) = event_queue st) \<and>
   (stopped (old_workers st) \<longrightarrow>
      stopped (old_workers (handle_new_message m st)) \<and>
      stopped (old_workers (clear_history rd st)) \<and>
      stopped (old_workers (play sched backend st)) \<and>
      old_emit_step i backend (handle_new_message m st) = handle_new_message m st \<and>
      old_emit_step i backend (clear_history rd st) = clear_history rd st \<and>
      emit_step backend (clear_history rd st) = clear_history rd st) \<and>
   worker_steps n backend h (terminate w) = (terminate w, []) \<and>
   (isRunning (fst (worker_steps k backend h w)) \<longrightarrow>
      filter is_terminal (snd (worker_steps k backend h w)) = []) \<and>
   (phase w = Pending \<longrightarrow> prefix (snd (worker_steps k backend h w)) (run backend h w))"
proof (intro conjI impI)
  assume a: "active_worker st = Some w \<and> strip m \<noteq> []"
  then have aw: "active_worker st = Some w" and nb: "strip m \<noteq> []" by simp_all
  show "old_workers (handle_new_message m st) = terminate w # old_workers st"
    using aw nb by (rule handle_new_message_kills)
  show "event_queue (handle_new_message m st) = event_queue st"
    by (rule handle_new_message_queue)
  show "response_area (handle_new_message m st) = []"
    by (rule handle_new_message_fields(2) [OF nb])
  show "history (handle_new_message m st) = history st @ [user_message m]"
    by (rule handle_new_message_fields(1) [OF nb])
  show "\<exists>w'. current_worker (handle_new_message m st) = Some w' \<and> phase w' = Pending"
    using handle_new_message_fields(4) [OF nb, of st] by blast
next
  assume aw: "active_worker st = Some w"
  show "old_workers (clear_history rd st) = terminate w # old_workers st"
    using clear_history_kills [OF aw] by blast
  show "current_worker (clear_history rd st) = None"
    using clear_history_kills [OF aw] by blast
  show "event_queue (clear_history rd st) = event_queue st"
    by (rule clear_history_fields(11))
next
  assume s: "stopped (old_workers st)"
  show 1: "stopped (old_workers (handle_new_message m st))"
    using s by (rule handle_new_message_stopped)
  show 2: "stopped (old_workers (clear_history rd st))"
    using s by (rule clear_history_stopped)
  show "stopped (old_workers (play sched backend st))"
    using s by (rule play_stopped)
  show "old_emit_step i backend (handle_new_message m st) = handle_new_message m st"
    using 1 by (rule old_emit_step_stopped)
  show "old_emit_step i backend (clear_history rd st) = clear_history rd st"
    using 2 by (rule old_emit_step_stopped)
  show "emit_step backend (clear_history rd st) = clear_history rd st"
    using clear_history_idle [of rd st]
    by (auto simp: emit_step_def active_worker_def not_running_step
        split: option.splits if_splits)
next
  show "worker_steps n backend h (terminate w) = (terminate w, [])"
    by (rule worker_steps_killed)
  show "filter is_terminal (snd (worker_steps k backend h w)) = []"
    if "isRunning (fst (worker_steps k backend h w))"
    using that by (rule running_no_terminal)
  show "prefix (snd (worker_steps k backend h w)) (run backend h w)" if "phase w = Pending"
    using that by (rule steps_prefix_of_run)
qed

theorem cancel_kills_the_worker_witness:
  "active_worker (check_clipboard (Some ''A'') app0) = Some (worker0\<lparr>w_messages := 1\<rparr>) \<and>
   strip ''B'' \<noteq> [] \<and>
   stopped (old_workers (check_clipboard (Some ''A'') app0)) \<and>
   old_workers (handle_new_message ''B'' (check_clipboard (Some ''A'') app0))
     = [worker0\<lparr>w_messages := 1, phase := Killed\<rparr>] \<and>
   old_workers (clear_history None (check_clipboard (Some ''A'') app0))
     = [worker0\<lparr>w_messages := 1, phase := Killed\<rparr>] \<and>
   current_worker (clear_history None (check_clipboard (Some ''A'') app0)) = None \<and>
   old_emit_step 0 (reply (Inr [Chunk [Some ''a''], Chunk [Some ''b'']]))
      (handle_new_message ''B'' (check_clipboard (Some ''A'') app0))
     = handle_new_message ''B'' (check_clipboard (Some ''A'') app0) \<and>
   isRunning (fst (worker_steps 2 (reply (Inr [Chunk [Some ''a''], Chunk [Some ''b'']]))
      (heap app0) (worker0\<lparr>w_messages := 1\<rparr>))) \<and>
   filter is_terminal (snd (worker_steps 2 (reply (Inr [Chunk [Some ''a''], Chunk [Some ''b'']]))
      (heap app0) (worker0\<lparr>w_messages := 1\<rparr>))) = [] \<and>
   phase (worker0\<lparr>w_messages := 1\<rparr>) = Pending \<and>
   prefix (snd (worker_steps 2 (reply (Inr [Chunk [Some ''a''], Chunk [Some ''b'']]))
      (heap app0) (worker0\<lparr>w_messages := 1\<rparr>)))
     [token_received ''a'', token_received ''b'', finished ''ab'']"
proof -
  let ?be = "reply (Inr [Chunk [Some ''a''], Chunk [Some ''b'']]) :: (unit, unit) request \<Rightarrow> response"
  let ?st = "check_clipboard (Some ''A'') app0"
  let ?w = "worker0\<lparr>w_messages := 1\<rparr>"
  have nbB: "strip ''B'' \<noteq> []" by (simp add: strip_def isspace_def)
  have act: "active_worker ?st = Some ?w"
    by (simp add: active_worker_def app0_def init_app_def worker0_def window_defs)
  have old: "old_workers ?st = []"
    by (simp add: app0_def init_app_def window_defs)
  have st: "stopped (old_workers ?st)" by (simp add: old stopped_def)
  have run: "isRunning (fst (worker_steps 2 ?be (heap app0) ?w))"
    by (simp add: numeral_2_eq_2 worker_step_def reply_def worker0_def isRunning_def)
  have pend: "phase ?w = Pending" by (simp add: worker0_def)
  have r: "run ?be (heap app0) ?w = [token_received ''a'', token_received ''b'', finished ''ab'']"
    by (simp add: run_def reply_def)
  have k: "terminate ?w = worker0\<lparr>w_messages := 1, phase := Killed\<rparr>"
    by (simp add: terminate_def)
  note T = cancel_kills_the_worker [where st = ?st and w = ?w and m = "''B''" and rd = None
      and backend = ?be and h = "heap app0" and k = 2 and i = 0]
  have "old_workers (handle_new_message ''B'' ?st) = terminate ?w # old_workers ?st"
    using T act nbB by blast
  then have 1: "old_workers (handle_new_message ''B'' ?st) = [worker0\<lparr>w_messages := 1, phase := Killed\<rparr>]"
    by (simp only: old k)
  have "old_workers (clear_history None ?st) = terminate ?w # old_workers ?st"
    using T act by blast
  then have 2: "old_workers (clear_history None ?st) = [worker0\<lparr>w_messages := 1, phase := Killed\<rparr>]"
    by (simp only: old k)
  have 3: "current_worker (clear_history None ?st) = None"
    using T act by blast
  have 4: "old_emit_step 0 ?be (handle_new_message ''B'' ?st) = handle_new_message ''B'' ?st"
    using T st by blast
  have 5: "filter is_terminal (snd (worker_steps 2 ?be (heap app0) ?w)) = []"
    using T run by blast
  have "prefix (snd (worker_steps 2 ?be (heap app0) ?w)) (run ?be (heap app0) ?w)"
    using T pend by blast
  then have 6: "prefix (snd (worker_steps 2 ?be (heap app0) ?w))
      [token_received ''a'', token_received ''b'', finished ''ab'']"
    by (simp only: r)
  show ?thesis using act nbB st 1 2 3 4 run 5 pend 6 by blast
qed

end
